theory Spec2Isabelle
  imports
    Main
    "HOL-Library.AList"
    "HOL-Library.Char_ord"
    "HOL-Library.List_Lexorder"
    "HOL-Library.Multiset"
begin

unbundle bit_operations_syntax

section \<open>Strings\<close>

text \<open>
  A JavaScript string is modelled as a \<^typ>\<open>string\<close>: one \<^typ>\<open>char\<close> per
  code unit (code units below 256). Every normalisation of the program keeps
  ASCII letters, digits and a few ASCII punctuation marks only, so how the
  code units above 127 are encoded does not change a result.
\<close>

definition startsWith :: "string \<Rightarrow> string \<Rightarrow> bool" where
  "startsWith s p = (take (length p) s = p)"

definition endsWith :: "string \<Rightarrow> string \<Rightarrow> bool" where
  "endsWith s p = (length p \<le> length s \<and> drop (length s - length p) s = p)"

fun join :: "string \<Rightarrow> string list \<Rightarrow> string" where
  "join sep [] = []"
| "join sep [x] = x"
| "join sep (x # y # ys) = x @ sep @ join sep (y # ys)"

definition isUpper :: "char \<Rightarrow> bool" where
  "isUpper c = (65 \<le> (of_char c :: nat) \<and> (of_char c :: nat) \<le> 90)"

definition isLower :: "char \<Rightarrow> bool" where
  "isLower c = (97 \<le> (of_char c :: nat) \<and> (of_char c :: nat) \<le> 122)"

definition isDigit :: "char \<Rightarrow> bool" where
  "isDigit c = (48 \<le> (of_char c :: nat) \<and> (of_char c :: nat) \<le> 57)"

definition isAlnum :: "char \<Rightarrow> bool" where
  "isAlnum c = (isUpper c \<or> isLower c \<or> isDigit c)"

text \<open>\<^verbatim>\<open>toLowerCase\<close> on one code unit (the strings it is applied to are ASCII).\<close>

definition lowerChar :: "char \<Rightarrow> char" where
  "lowerChar c = (if isUpper c then char_of ((of_char c :: nat) + 32) else c)"

definition toLowerCase :: "string \<Rightarrow> string" where
  "toLowerCase s = map lowerChar s"

text \<open>The white space \<^verbatim>\<open>parseInt\<close> and \<^verbatim>\<open>\s\<close> skip, below code unit 256.\<close>

definition isWhiteSpace :: "char \<Rightarrow> bool" where
  "isWhiteSpace c = ((of_char c :: nat) \<in> {9, 10, 11, 12, 13, 32, 160})"

definition digitValue :: "char \<Rightarrow> nat option" where
  "digitValue c = (if isDigit c then Some ((of_char c :: nat) - 48) else None)"

definition hexValue :: "char \<Rightarrow> nat option" where
  "hexValue c =
     (let n = (of_char c :: nat) in
      if isDigit c then Some (n - 48)
      else if 65 \<le> n \<and> n \<le> 70 then Some (n - 55)
      else if 97 \<le> n \<and> n \<le> 102 then Some (n - 87)
      else None)"

fun leadingDigits :: "(char \<Rightarrow> nat option) \<Rightarrow> string \<Rightarrow> nat list" where
  "leadingDigits val [] = []"
| "leadingDigits val (c # cs) =
     (case val c of None \<Rightarrow> [] | Some d \<Rightarrow> d # leadingDigits val cs)"

text \<open>
  The Number value of a non-negative integer: the nearest double, a tie going to the
  even significand. \<open>ulpExponent m\<close> is the number of low bits that do not fit
  into the 53-bit significand. A value that rounds to \<open>2^1024\<close> or more is
  \<^verbatim>\<open>Infinity\<close>, for which \<open>2^1024\<close> stands (it is above every finite double and
  equal to itself, as \<^verbatim>\<open>Infinity\<close> is under \<^verbatim>\<open><\<close> and under the comparator
  \<^verbatim>\<open>a - b\<close> of a sort, where \<^verbatim>\<open>Infinity - Infinity\<close> is NaN and counts as 0).
\<close>

function ulpExponent :: "int \<Rightarrow> nat" where
  "ulpExponent m = (if m < 2 ^ 53 then 0 else Suc (ulpExponent (m div 2)))"
  by pat_completeness auto
termination
  by (relation "measure nat") auto

definition toNumber :: "int \<Rightarrow> int" where
  "toNumber m =
     (let e = ulpExponent m;
          q = m div 2 ^ e;
          r = m mod 2 ^ e;
          q' = (if 2 ^ e < 2 * r \<or> (2 * r = 2 ^ e \<and> odd q) then q + 1 else q);
          v = q' * 2 ^ e
      in if 2 ^ 1024 \<le> v then 2 ^ 1024 else v)"

text \<open>
  \<^verbatim>\<open>parseInt(value)\<close> with no radix: white space, a sign, a \<^verbatim>\<open>0x\<close> prefix, then
  the longest run of digits; \<open>None\<close> is NaN. The result is the Number value of
  the integer the digits denote, as the V8 runtime computes it.
\<close>

definition parseInt :: "string \<Rightarrow> int option" where
  "parseInt s =
     (let t = dropWhile isWhiteSpace s;
          neg = (case t of [] \<Rightarrow> False | c # _ \<Rightarrow> c = CHR ''-'');
          u = (case t of [] \<Rightarrow> []
               | c # r \<Rightarrow> if c = CHR ''-'' \<or> c = CHR ''+'' then r else t);
          hex = (take 2 u = ''0x'' \<or> take 2 u = ''0X'');
          ds = (if hex then leadingDigits hexValue (drop 2 u)
                else leadingDigits digitValue u);
          radix = (if hex then 16 else 10);
          n = toNumber (foldl (\<lambda>a d. radix * a + int d) 0 ds)
      in if ds = [] then None else Some (if neg then - n else n))"

section \<open>Script properties: the bounded store of processed message ids\<close>

text \<open>
  \<^verbatim>\<open>PropertiesService.getScriptProperties()\<close> is a key/value store of strings.
  It is an association list with one entry per key; the order of the list is
  the order in which \<^verbatim>\<open>Object.entries\<close> enumerates \<^verbatim>\<open>getProperties()\<close>. The
  calls of the service itself are taken to succeed.
\<close>

type_synonym properties = "(string \<times> string) list"

definition PROCESSED_MSG :: string where
  "PROCESSED_MSG = ''PROCESSED_MSG_''"

definition propertyKeys :: "properties \<Rightarrow> string list" where
  "propertyKeys ps = remdups (map fst ps)"

definition deleteProperty :: "string \<Rightarrow> properties \<Rightarrow> properties" where
  "deleteProperty k ps = AList.delete k ps"

definition putProperty :: "string \<Rightarrow> string \<Rightarrow> properties \<Rightarrow> properties" where
  "putProperty k v ps = AList.update k v ps"

text \<open>
  \<^verbatim>\<open>rotateProcessedMessages(removeCount)\<close>: collect the \<^verbatim>\<open>PROCESSED_MSG_\<close>
  entries whose value parses as a number, sort them by that timestamp (oldest
  first; \<^verbatim>\<open>Array.prototype.sort\<close> is stable), delete the first
  \<^verbatim>\<open>Math.min(removeCount, length)\<close> of them and return how many were deleted.
\<close>

definition collectProcessed :: "properties \<Rightarrow> (string \<times> int) list" where
  "collectProcessed ps =
     List.map_filter
       (\<lambda>(key, value).
          if startsWith key PROCESSED_MSG
          then (case parseInt value of None \<Rightarrow> None | Some timestamp \<Rightarrow> Some (key, timestamp))
          else None)
       ps"

definition rotateProcessedMessages :: "nat \<Rightarrow> properties \<Rightarrow> properties \<times> nat" where
  "rotateProcessedMessages removeCount ps =
     (let processedMessages = sort_key snd (collectProcessed ps);
          toRemove = take (min removeCount (length processedMessages)) processedMessages
      in foldl (\<lambda>(store, removedCount) item. (deleteProperty (fst item) store, removedCount + 1))
           (ps, 0) toRemove)"

text \<open>
  \<^verbatim>\<open>cleanupOldProcessedMessages(daysOld)\<close>: walk the snapshot of the properties
  and delete every \<^verbatim>\<open>PROCESSED_MSG_\<close> entry whose timestamp is below the cutoff
  (a value that does not parse is NaN, and \<^verbatim>\<open>NaN < cutoff\<close> is false). \<open>now\<close> is
  the time value of \<^verbatim>\<open>new Date()\<close>.
\<close>

definition cleanupOldProcessedMessages :: "int \<Rightarrow> int \<Rightarrow> properties \<Rightarrow> properties \<times> nat" where
  "cleanupOldProcessedMessages now daysOld ps =
     (let cutoffTime = now - daysOld * 24 * 60 * 60 * 1000
      in foldl
           (\<lambda>(store, cleanedCount) (key, value).
              if startsWith key PROCESSED_MSG
              then (case parseInt value of
                      None \<Rightarrow> (store, cleanedCount)
                    | Some timestamp \<Rightarrow>
                        if timestamp < cutoffTime
                        then (deleteProperty key store, cleanedCount + 1)
                        else (store, cleanedCount))
              else (store, cleanedCount))
           (ps, 0) ps)"

text \<open>\<^verbatim>\<open>clearAllProcessedMessages()\<close>: delete every \<^verbatim>\<open>PROCESSED_MSG_\<close> entry.\<close>

definition clearAllProcessedMessages :: "properties \<Rightarrow> properties \<times> nat" where
  "clearAllProcessedMessages ps =
     foldl
       (\<lambda>(store, count) key.
          if startsWith key PROCESSED_MSG then (deleteProperty key store, count + 1)
          else (store, count))
       (ps, 0) (propertyKeys ps)"

text \<open>
  \<^verbatim>\<open>setProperty(key, value)\<close>: when the store holds 48 keys or more and the key
  is new, clean up first (rotation of 5 for a \<^verbatim>\<open>PROCESSED_MSG_\<close> key, the
  three-day cleanup for any other key), then write the property.
\<close>

definition setProperty :: "int \<Rightarrow> string \<Rightarrow> string \<Rightarrow> properties \<Rightarrow> properties" where
  "setProperty now key value ps =
     (let currentCount = length (propertyKeys ps);
          exists = (key \<in> set (propertyKeys ps));
          cleaned =
            (if 48 \<le> currentCount \<and> \<not> exists
             then (if startsWith key PROCESSED_MSG
                   then fst (rotateProcessedMessages 5 ps)
                   else fst (cleanupOldProcessedMessages now 3 ps))
             else ps)
      in putProperty key value cleaned)"

text \<open>\<^verbatim>\<open>getProperty(key, required)\<close>: an absent or empty value of a required key throws.\<close>

datatype error =
    RequiredPropertyMissing string
  | BaseFolderAccessFailed
  | NoSenderEmails
  | InvalidWebhookUrl
  | DriveServiceFailed
  | SpreadsheetServiceFailed

definition getProperty :: "properties \<Rightarrow> string \<Rightarrow> bool \<Rightarrow> error + string option" where
  "getProperty ps key required =
     (case map_of ps key of
        None \<Rightarrow> if required then Inl (RequiredPropertyMissing key) else Inr None
      | Some v \<Rightarrow> if v = [] \<and> required then Inl (RequiredPropertyMissing key) else Inr (Some v))"

section \<open>The content fingerprint\<close>

subsection \<open>Platform: decimal rendering and \<^verbatim>\<open>Utilities.formatDate\<close>\<close>

text \<open>
  An instant is the number of milliseconds since 1970-01-01T00:00:00Z, as
  \<^verbatim>\<open>Date.prototype.getTime\<close> gives it; the model covers the instants from
  the epoch on. A \<^verbatim>\<open>Date\<close> argument is an \<^typ>\<open>nat option\<close>: \<open>None\<close> is a
  missing or invalid date, on which \<^verbatim>\<open>Utilities.formatDate\<close> throws.
\<close>

type_synonym instant = nat

definition digitChar :: "nat \<Rightarrow> char" where
  "digitChar d = char_of (48 + d)"

function digits :: "nat \<Rightarrow> string" where
  "digits n = (if n < 10 then [digitChar n] else digits (n div 10) @ [digitChar (n mod 10)])"
  by pat_completeness auto
termination
  by (relation "measure id") auto

definition pad :: "nat \<Rightarrow> nat \<Rightarrow> string" where
  "pad w n = replicate (w - length (digits n)) (CHR ''0'') @ digits n"

definition isLeapYear :: "nat \<Rightarrow> bool" where
  "isLeapYear y = (if y mod 400 = 0 then True else if y mod 100 = 0 then False else y mod 4 = 0)"

definition daysInYear :: "nat \<Rightarrow> nat" where
  "daysInYear y = (if isLeapYear y then 366 else 365)"

definition monthLengths :: "nat \<Rightarrow> nat list" where
  "monthLengths y = [31, if isLeapYear y then 29 else 28, 31, 30, 31, 30, 31, 31, 30, 31, 30, 31]"

text \<open>The year that holds day \<open>d\<close> counted from 1 January of year \<open>y\<close>, and the day within it.\<close>

function yearOf :: "nat \<Rightarrow> nat \<Rightarrow> nat \<times> nat" where
  "yearOf y d = (if d < daysInYear y then (y, d) else yearOf (y + 1) (d - daysInYear y))"
  by pat_completeness auto
termination
  by (relation "measure snd") (auto simp: daysInYear_def)

fun monthOf :: "nat list \<Rightarrow> nat \<Rightarrow> nat \<Rightarrow> nat \<times> nat" where
  "monthOf [] m d = (m, d)"
| "monthOf (l # ls) m d = (if d < l then (m, d) else monthOf ls (m + 1) (d - l))"

text \<open>
  Modelled platform function: \<^verbatim>\<open>Utilities.formatDate(date, 'JST', 'yyyyMMdd_HHmm')\<close>.
  JST is UTC+9 with no daylight saving; the calendar is the Gregorian one.
\<close>

definition formatDateKey :: "instant \<Rightarrow> string" where
  "formatDateKey t =
     (case yearOf 1970 ((t div 60000 + 540) div 1440) of (y, dayOfYear) \<Rightarrow>
        (case monthOf (monthLengths y) 1 dayOfYear of (m, dayOfMonth) \<Rightarrow>
           pad 4 y @ pad 2 m @ pad 2 (dayOfMonth + 1) @ ''_''
             @ pad 2 (((t div 60000 + 540) mod 1440) div 60) @ pad 2 ((t div 60000 + 540) mod 60)))"

definition formatDate :: "instant option \<Rightarrow> string option" where
  "formatDate date = map_option formatDateKey date"

subsection \<open>Platform: MD5 and Base64\<close>

text \<open>
  \<^verbatim>\<open>Utilities.computeDigest(Utilities.DigestAlgorithm.MD5, s)\<close> as RFC 1321
  defines it, on 32-bit words kept as integers with the reduction modulo
  \<open>2^32\<close> written out; a round entry is (message word index, rotation, constant).
\<close>

definition not32 :: "int \<Rightarrow> int" where
  "not32 x = 0xFFFFFFFF - x"

definition add32 :: "int \<Rightarrow> int \<Rightarrow> int" where
  "add32 x y = (x + y) mod 0x100000000"

definition rotl32 :: "nat \<Rightarrow> int \<Rightarrow> int" where
  "rotl32 s x = (x * 2 ^ s) mod 0x100000000 + x div 2 ^ (32 - s)"

definition md5_F :: "int \<Rightarrow> int \<Rightarrow> int \<Rightarrow> int" where
  "md5_F b c d = (b AND c) OR (not32 b AND d)"

definition md5_G :: "int \<Rightarrow> int \<Rightarrow> int \<Rightarrow> int" where
  "md5_G b c d = (b AND d) OR (c AND not32 d)"

definition md5_H :: "int \<Rightarrow> int \<Rightarrow> int \<Rightarrow> int" where
  "md5_H b c d = b XOR c XOR d"

definition md5_I :: "int \<Rightarrow> int \<Rightarrow> int \<Rightarrow> int" where
  "md5_I b c d = c XOR (b OR not32 d)"

definition md5_round1 :: "(nat \<times> nat \<times> int) list" where
  "md5_round1 =
     [(0, 7, 0xd76aa478), (1, 12, 0xe8c7b756), (2, 17, 0x242070db), (3, 22, 0xc1bdceee),
      (4, 7, 0xf57c0faf), (5, 12, 0x4787c62a), (6, 17, 0xa8304613), (7, 22, 0xfd469501),
      (8, 7, 0x698098d8), (9, 12, 0x8b44f7af), (10, 17, 0xffff5bb1), (11, 22, 0x895cd7be),
      (12, 7, 0x6b901122), (13, 12, 0xfd987193), (14, 17, 0xa679438e), (15, 22, 0x49b40821)]"

definition md5_round2 :: "(nat \<times> nat \<times> int) list" where
  "md5_round2 =
     [(1, 5, 0xf61e2562), (6, 9, 0xc040b340), (11, 14, 0x265e5a51), (0, 20, 0xe9b6c7aa),
      (5, 5, 0xd62f105d), (10, 9, 0x02441453), (15, 14, 0xd8a1e681), (4, 20, 0xe7d3fbc8),
      (9, 5, 0x21e1cde6), (14, 9, 0xc33707d6), (3, 14, 0xf4d50d87), (8, 20, 0x455a14ed),
      (13, 5, 0xa9e3e905), (2, 9, 0xfcefa3f8), (7, 14, 0x676f02d9), (12, 20, 0x8d2a4c8a)]"

definition md5_round3 :: "(nat \<times> nat \<times> int) list" where
  "md5_round3 =
     [(5, 4, 0xfffa3942), (8, 11, 0x8771f681), (11, 16, 0x6d9d6122), (14, 23, 0xfde5380c),
      (1, 4, 0xa4beea44), (4, 11, 0x4bdecfa9), (7, 16, 0xf6bb4b60), (10, 23, 0xbebfbc70),
      (13, 4, 0x289b7ec6), (0, 11, 0xeaa127fa), (3, 16, 0xd4ef3085), (6, 23, 0x04881d05),
      (9, 4, 0xd9d4d039), (12, 11, 0xe6db99e5), (15, 16, 0x1fa27cf8), (2, 23, 0xc4ac5665)]"

definition md5_round4 :: "(nat \<times> nat \<times> int) list" where
  "md5_round4 =
     [(0, 6, 0xf4292244), (7, 10, 0x432aff97), (14, 15, 0xab9423a7), (5, 21, 0xfc93a039),
      (12, 6, 0x655b59c3), (3, 10, 0x8f0ccc92), (10, 15, 0xffeff47d), (1, 21, 0x85845dd1),
      (8, 6, 0x6fa87e4f), (15, 10, 0xfe2ce6e0), (6, 15, 0xa3014314), (13, 21, 0x4e0811a1),
      (4, 6, 0xf7537e82), (11, 10, 0xbd3af235), (2, 15, 0x2ad7d2bb), (9, 21, 0xeb86d391)]"

type_synonym md5_state = "int \<times> int \<times> int \<times> int"

fun md5_rounds :: "(int \<Rightarrow> int \<Rightarrow> int \<Rightarrow> int) \<Rightarrow> int list \<Rightarrow> (nat \<times> nat \<times> int) list
    \<Rightarrow> md5_state \<Rightarrow> md5_state" where
  "md5_rounds f m [] st = st"
| "md5_rounds f m ((g, s, k) # rs) (a, b, c, d) =
     md5_rounds f m rs
       (d, add32 b (rotl32 s (add32 (add32 (add32 a (f b c d)) k) (m ! g))), b, c)"

fun md5_add :: "md5_state \<Rightarrow> md5_state \<Rightarrow> md5_state" where
  "md5_add (a0, b0, c0, d0) (a, b, c, d) = (add32 a0 a, add32 b0 b, add32 c0 c, add32 d0 d)"

definition md5_block :: "md5_state \<Rightarrow> int list \<Rightarrow> md5_state" where
  "md5_block st m =
     md5_add st
       (md5_rounds md5_I m md5_round4
         (md5_rounds md5_H m md5_round3
           (md5_rounds md5_G m md5_round2
             (md5_rounds md5_F m md5_round1 st))))"

fun le32 :: "int list \<Rightarrow> int" where
  "le32 [b0, b1, b2, b3] = b0 + 256 * b1 + 65536 * b2 + 16777216 * b3"
| "le32 _ = 0"

fun chunks :: "nat \<Rightarrow> 'a list \<Rightarrow> 'a list list" where
  "chunks n [] = []"
| "chunks n (x # xs) = (if n = 0 then [] else take n (x # xs) # chunks n (drop n (x # xs)))"

fun bytes_le :: "nat \<Rightarrow> int \<Rightarrow> int list" where
  "bytes_le 0 w = []"
| "bytes_le (Suc n) w = w mod 256 # bytes_le n (w div 256)"

definition md5_pad :: "int list \<Rightarrow> int list" where
  "md5_pad bs =
     bs @ [128] @ replicate ((119 - length bs mod 64) mod 64) 0 @ bytes_le 8 (8 * int (length bs))"

fun md5_digest :: "md5_state \<Rightarrow> int list" where
  "md5_digest (a, b, c, d) = bytes_le 4 a @ bytes_le 4 b @ bytes_le 4 c @ bytes_le 4 d"

definition md5 :: "int list \<Rightarrow> int list" where
  "md5 bs =
     md5_digest
       (foldl md5_block (0x67452301, 0xefcdab89, 0x98badcfe, 0x10325476)
          (map (\<lambda>blk. map le32 (chunks 4 blk)) (chunks 64 (md5_pad bs))))"

text \<open>\<^verbatim>\<open>Utilities.base64Encode\<close> of a byte array (bytes as \<open>0..255\<close>).\<close>

definition base64Char :: "int \<Rightarrow> char" where
  "base64Char i =
     ''ABCDEFGHIJKLMNOPQRSTUVWXYZabcdefghijklmnopqrstuvwxyz0123456789+/'' ! nat i"

fun base64Encode :: "int list \<Rightarrow> string" where
  "base64Encode [] = []"
| "base64Encode [b0] = [base64Char (b0 div 4), base64Char ((b0 mod 4) * 16), CHR ''='', CHR ''='']"
| "base64Encode [b0, b1] =
     [base64Char (b0 div 4), base64Char ((b0 mod 4) * 16 + b1 div 16),
      base64Char ((b1 mod 16) * 4), CHR ''='']"
| "base64Encode (b0 # b1 # b2 # bs) =
     [base64Char (b0 div 4), base64Char ((b0 mod 4) * 16 + b1 div 16),
      base64Char ((b1 mod 16) * 4 + b2 div 64), base64Char (b2 mod 64)] @ base64Encode bs"

subsection \<open>\<^verbatim>\<open>generateContentDuplicateKey\<close>\<close>

text \<open>
  The three normalisations of the source, in its order of operations: the
  subject keeps \<^verbatim>\<open>[a-zA-Z0-9]\<close>, the attachment names are sorted (by code unit,
  before any case folding), joined with a comma and keep \<^verbatim>\<open>[a-zA-Z0-9.,]\<close>,
  the sender keeps \<^verbatim>\<open>[a-zA-Z0-9@.]\<close>; each is lower-cased last.
\<close>

definition subjectKey :: "string \<Rightarrow> string" where
  "subjectKey subject = toLowerCase (filter isAlnum subject)"

definition pdfKey :: "string list \<Rightarrow> string" where
  "pdfKey pdfNames =
     toLowerCase (filter (\<lambda>c. isAlnum c \<or> c = CHR ''.'' \<or> c = CHR '','') (join '','' (sort pdfNames)))"

definition senderKey :: "string \<Rightarrow> string" where
  "senderKey sender = toLowerCase (filter (\<lambda>c. isAlnum c \<or> c = CHR ''@'' \<or> c = CHR ''.'') sender)"

definition combinedKey :: "string \<Rightarrow> string \<Rightarrow> string \<Rightarrow> string list \<Rightarrow> string" where
  "combinedKey sender dateKey subject pdfNames =
     senderKey sender @ ''_'' @ dateKey @ ''_'' @ subjectKey subject @ ''_'' @ pdfKey pdfNames"

definition contentHash :: "string \<Rightarrow> string" where
  "contentHash key = take 16 (base64Encode (md5 (map of_char key)))"

text \<open>
  \<open>now\<close> is the wall clock read by the \<^verbatim>\<open>catch\<close> branch. The only call of the
  \<^verbatim>\<open>try\<close> block that can throw on a string sender, a string subject and an
  array of strings is \<^verbatim>\<open>Utilities.formatDate\<close>.
\<close>

definition generateContentDuplicateKey ::
    "instant \<Rightarrow> string \<Rightarrow> instant option \<Rightarrow> string \<Rightarrow> string list \<Rightarrow> string" where
  "generateContentDuplicateKey now sender date subject pdfNames =
     (case formatDate date of
        Some dateKey \<Rightarrow> ''CONTENT_'' @ contentHash (combinedKey sender dateKey subject pdfNames)
      | None \<Rightarrow> ''CONTENT_'' @ digits now)"

section \<open>The ledgers and the duplicate coordinator\<close>

subsection \<open>The state\<close>

text \<open>
  A row of the tab \<^verbatim>\<open>Content_Duplicates\<close> (the Content Ledger) and a row of the tab
  \<^verbatim>\<open>Processed_Messages\<close> (the Processing Ledger), column by column. A date cell
  keeps the instant that \<^verbatim>\<open>Utilities.formatDate\<close> renders; a cell read back is
  the string that was written.
\<close>

record duplicateRow =
  registeredAt :: instant
  rowContentKey :: string
  rowSender :: string
  sentAt :: instant
  rowSubject :: string
  pdfFilenames :: string
  driveFolderUrl :: string
  firstSavedAt :: instant

record processedRow =
  processedAt :: instant
  rowMessageId :: string
  processedContentKey :: string
  processedSubject :: string
  processedSender :: string
  status :: string

text \<open>
  A spreadsheet of the account: its file name and its two ledger tabs (a tab
  that does not exist yet is \<open>None\<close>). The tab \<^verbatim>\<open>Contract_List\<close> is written by
  \<^verbatim>\<open>addEmailRecord\<close> and \<^verbatim>\<open>updateRecordStatus\<close> and read by no function of the
  coordinator; its rows are not part of the state, and \<^verbatim>\<open>ensureLoggingSheet\<close>
  is taken to find it with the current headers.
\<close>

record spreadsheet =
  spreadsheetName :: string
  processedSheet :: "processedRow list option"
  duplicateSheet :: "duplicateRow list option"

record attachment =
  attachmentName :: string
  canBeSaved :: bool

record message =
  messageId :: string
  messageSubject :: string
  messageFrom :: string
  messageDate :: instant
  inTrash :: bool
  attachments :: "attachment list"

record thread =
  threadId :: string
  threadMessages :: "message list"

text \<open>
  The world an invocation runs in.

  \<^item> \<open>spreadsheets\<close> are the spreadsheets of the account by id. Every call of
    \<^verbatim>\<open>SpreadsheetApp.openById\<close> or \<^verbatim>\<open>SpreadsheetApp.create\<close> may fail on its own:
    \<open>spreadsheetCalls\<close> lists the outcomes of the calls to come, in the order
    of the calls (\<open>True\<close>: the service answers); a call past the end of the
    list is answered. A spreadsheet that has been opened answers the calls on
    its tabs.
  \<^item> \<open>driveReachable\<close> says whether the Drive service answers, \<open>driveFolders\<close>
    are the folders by id with their names, \<open>driveFiles\<close> the names of the files
    saved by \<^verbatim>\<open>saveAttachmentToDrive\<close>.
  \<^item> \<open>slackReachable\<close> says whether the webhook call succeeds;
    \<open>slackNotifications\<close> are the subjects of the message notifications sent.
  \<^item> \<open>mailbox\<close> holds the threads that the sender part of the search query
    matches, in the order in which \<^verbatim>\<open>GmailApp.search\<close> lists them;
    \<open>processedLabel\<close> holds the ids of the threads that carry the label
    \<^verbatim>\<open>Contract_Processed\<close>, and \<open>labelReachable\<close> says whether the label calls of
    \<^verbatim>\<open>addProcessedLabel\<close> succeed. The other calls of the Gmail service are
    taken to succeed, and no mail arrives during an invocation.
\<close>

record world =
  scriptProperties :: properties
  spreadsheetCalls :: "bool list"
  spreadsheets :: "(string \<times> spreadsheet) list"
  driveReachable :: bool
  driveFolders :: "(string \<times> string) list"
  driveFiles :: "string list"
  slackReachable :: bool
  slackNotifications :: "string list"
  mailbox :: "thread list"
  labelReachable :: bool
  processedLabel :: "string list"

record attachmentInfo =
  originalName :: string
  driveUrl :: "string option"
  skipped :: "string option"
  saveError :: bool
  infoContentKey :: "string option"
  isDuplicate :: bool

text \<open>
  The names \<^verbatim>\<open>CONFIG.DRIVE_FOLDER_NAME\<close> and \<^verbatim>\<open>SPREADSHEET_CONFIG.NAME\<close>; the
  Japanese prefix of each name is left out (names are compared for equality
  only).
\<close>

definition DRIVE_FOLDER_NAME :: string where
  "DRIVE_FOLDER_NAME = ''_Contract_Documents''"

definition SPREADSHEET_NAME :: string where
  "SPREADSHEET_NAME = ''_Contract_Tracking''"

text \<open>
  The id the platform gives a new folder or spreadsheet: an id that is not in
  use.
\<close>

definition freshId :: "string list \<Rightarrow> string" where
  "freshId ids = replicate (Suc (foldr max (map length ids) 0)) (CHR ''n'')"

subsection \<open>Opening the spreadsheet\<close>

text \<open>\<^verbatim>\<open>!spreadsheetId\<close> on the optional \<^verbatim>\<open>SPREADSHEET_ID\<close> property.\<close>

definition spreadsheetConfigured :: "world \<Rightarrow> bool" where
  "spreadsheetConfigured w =
     (case getProperty (scriptProperties w) ''SPREADSHEET_ID'' False of
        Inl e \<Rightarrow> False
      | Inr None \<Rightarrow> False
      | Inr (Some v) \<Rightarrow> v \<noteq> [])"

definition configuredSpreadsheetId :: "world \<Rightarrow> string option" where
  "configuredSpreadsheetId w =
     (if spreadsheetConfigured w then map_of (scriptProperties w) ''SPREADSHEET_ID'' else None)"

text \<open>The next call of the spreadsheet service: its outcome, and the world after it.\<close>

definition nextSpreadsheetCall :: "world \<Rightarrow> bool \<times> world" where
  "nextSpreadsheetCall w =
     (case spreadsheetCalls w of
        [] \<Rightarrow> (True, w)
      | answered # calls \<Rightarrow> (answered, w\<lparr>spreadsheetCalls := calls\<rparr>))"

text \<open>
  \<^verbatim>\<open>SpreadsheetApp.openById(id)\<close>: \<open>None\<close> when it throws (the service does not
  answer, or no spreadsheet has the id).
\<close>

definition openById :: "world \<Rightarrow> string \<Rightarrow> spreadsheet option \<times> world" where
  "openById w sid =
     (case nextSpreadsheetCall w of
        (answered, w') \<Rightarrow> (if answered then map_of (spreadsheets w') sid else None, w'))"

definition putSpreadsheet :: "world \<Rightarrow> string \<Rightarrow> spreadsheet \<Rightarrow> world" where
  "putSpreadsheet w sid s = w\<lparr>spreadsheets := AList.update sid s (spreadsheets w)\<rparr>"

text \<open>
  The frame that the four ledger functions share: read \<^verbatim>\<open>SPREADSHEET_ID\<close>, open
  the spreadsheet, work on it. Without an id the fallback answer is returned
  at once; an exception of \<^verbatim>\<open>openById\<close> is caught and gives the fallback answer
  too.
\<close>

definition withSpreadsheet ::
    "world \<Rightarrow> 'a \<Rightarrow> (spreadsheet \<Rightarrow> 'a \<times> spreadsheet) \<Rightarrow> 'a \<times> world" where
  "withSpreadsheet w fallback work =
     (case configuredSpreadsheetId w of
        None \<Rightarrow> (fallback, w)
      | Some sid \<Rightarrow>
          (case openById w sid of
             (None, w') \<Rightarrow> (fallback, w')
           | (Some s, w') \<Rightarrow>
               (case work s of (result, s') \<Rightarrow> (result, putSpreadsheet w' sid s'))))"

text \<open>The spreadsheet that \<^verbatim>\<open>SPREADSHEET_ID\<close> names, and the rows of its two ledgers.\<close>

definition currentSpreadsheet :: "world \<Rightarrow> spreadsheet option" where
  "currentSpreadsheet w =
     (case configuredSpreadsheetId w of
        None \<Rightarrow> None
      | Some sid \<Rightarrow> map_of (spreadsheets w) sid)"

definition sheetProcessedRows :: "spreadsheet \<Rightarrow> processedRow list" where
  "sheetProcessedRows s = (case processedSheet s of None \<Rightarrow> [] | Some rows \<Rightarrow> rows)"

definition sheetDuplicateRows :: "spreadsheet \<Rightarrow> duplicateRow list" where
  "sheetDuplicateRows s = (case duplicateSheet s of None \<Rightarrow> [] | Some rows \<Rightarrow> rows)"

definition processedRows :: "world \<Rightarrow> processedRow list" where
  "processedRows w =
     (case currentSpreadsheet w of None \<Rightarrow> [] | Some s \<Rightarrow> sheetProcessedRows s)"

definition duplicateRows :: "world \<Rightarrow> duplicateRow list" where
  "duplicateRows w =
     (case currentSpreadsheet w of None \<Rightarrow> [] | Some s \<Rightarrow> sheetDuplicateRows s)"

definition createOrGetProcessedSheet :: "spreadsheet \<Rightarrow> spreadsheet" where
  "createOrGetProcessedSheet s =
     (case processedSheet s of None \<Rightarrow> s\<lparr>processedSheet := Some []\<rparr> | Some rows \<Rightarrow> s)"

definition createOrGetContentDuplicateSheet :: "spreadsheet \<Rightarrow> spreadsheet" where
  "createOrGetContentDuplicateSheet s =
     (case duplicateSheet s of None \<Rightarrow> s\<lparr>duplicateSheet := Some []\<rparr> | Some rows \<Rightarrow> s)"

subsection \<open>The Content Ledger\<close>

text \<open>
  \<^verbatim>\<open>checkContentDuplicate(contentKey)\<close>: \<open>(isDuplicate, existingUrl)\<close> of the
  first row whose key equals \<open>contentKey\<close>; no spreadsheet id, or an exception
  of the spreadsheet service, is answered ``not a duplicate''.
\<close>

definition checkContentDuplicate :: "world \<Rightarrow> string \<Rightarrow> (bool \<times> string option) \<times> world" where
  "checkContentDuplicate w contentKey =
     withSpreadsheet w (False, None)
       (\<lambda>s. let s' = createOrGetContentDuplicateSheet s in
          case find (\<lambda>row. rowContentKey row = contentKey) (sheetDuplicateRows s') of
            None \<Rightarrow> ((False, None), s')
          | Some row \<Rightarrow> ((True, Some (driveFolderUrl row)), s'))"

text \<open>
  \<^verbatim>\<open>recordContentDuplicate(contentKey, sender, date, subject, pdfNames, driveUrl)\<close>:
  appends a row, with no look at the rows that are there. An exception (the
  spreadsheet service, or \<^verbatim>\<open>Utilities.formatDate\<close> on a missing date) is caught
  and logged.
\<close>

definition recordContentDuplicate ::
    "world \<Rightarrow> instant \<Rightarrow> string \<Rightarrow> string \<Rightarrow> instant option \<Rightarrow> string \<Rightarrow> string list \<Rightarrow> string
      \<Rightarrow> world" where
  "recordContentDuplicate w now contentKey sender date subject pdfNames url =
     snd (withSpreadsheet w ()
       (\<lambda>s. let s' = createOrGetContentDuplicateSheet s in
          case date of
            None \<Rightarrow> ((), s')
          | Some sent \<Rightarrow>
              ((), s'\<lparr>duplicateSheet := Some (sheetDuplicateRows s' @
                 [\<lparr>registeredAt = now, rowContentKey = contentKey, rowSender = sender,
                   sentAt = sent, rowSubject = subject, pdfFilenames = join '', '' pdfNames,
                   driveFolderUrl = url, firstSavedAt = now\<rparr>])\<rparr>)))"

subsection \<open>The Processing Ledger\<close>

text \<open>
  \<^verbatim>\<open>isMessageProcessedInSpreadsheet(messageId)\<close>: whether a row holds the message
  id; no spreadsheet id, or an exception, is answered \<^verbatim>\<open>false\<close> (``assume not
  processed if check fails'').
\<close>

definition isMessageProcessedInSpreadsheet :: "world \<Rightarrow> string \<Rightarrow> bool \<times> world" where
  "isMessageProcessedInSpreadsheet w mid =
     withSpreadsheet w False
       (\<lambda>s. let s' = createOrGetProcessedSheet s in
          (mid \<in> set (map rowMessageId (sheetProcessedRows s')), s'))"

text \<open>
  \<^verbatim>\<open>markMessageProcessedInSpreadsheet(messageId, subject, sender, contentKey = null,
  status = 'Success')\<close>: appends a row; an exception is caught and logged.
\<close>

definition markMessageProcessedInSpreadsheet ::
    "world \<Rightarrow> instant \<Rightarrow> string \<Rightarrow> string \<Rightarrow> string \<Rightarrow> string option \<Rightarrow> string \<Rightarrow> world" where
  "markMessageProcessedInSpreadsheet w now mid subject sender contentKey st =
     snd (withSpreadsheet w ()
       (\<lambda>s. let s' = createOrGetProcessedSheet s in
          ((), s'\<lparr>processedSheet := Some (sheetProcessedRows s' @
             [\<lparr>processedAt = now, rowMessageId = mid,
               processedContentKey = (case contentKey of None \<Rightarrow> [] | Some k \<Rightarrow> k),
               processedSubject = subject, processedSender = sender, status = st\<rparr>])\<rparr>)))"

text \<open>\<^verbatim>\<open>isMessageAlreadyProcessed(message)\<close> and \<^verbatim>\<open>markMessageAsProcessed(message)\<close>.\<close>

definition isMessageAlreadyProcessed :: "world \<Rightarrow> message \<Rightarrow> bool \<times> world" where
  "isMessageAlreadyProcessed w msg = isMessageProcessedInSpreadsheet w (messageId msg)"

definition markMessageAsProcessed :: "world \<Rightarrow> instant \<Rightarrow> message \<Rightarrow> world" where
  "markMessageAsProcessed w now msg =
     markMessageProcessedInSpreadsheet w now (messageId msg) (messageSubject msg)
       (messageFrom msg) None ''Success''"

text \<open>
  \<^verbatim>\<open>addEmailRecord\<close> and \<^verbatim>\<open>updateRecordStatus\<close> read the required
  \<^verbatim>\<open>SPREADSHEET_ID\<close>, open the spreadsheet and write to the tab
  \<^verbatim>\<open>Contract_List\<close>; every exception is caught. What they leave in the state
  is the call of \<^verbatim>\<open>openById\<close>.
\<close>

definition addEmailRecord :: "world \<Rightarrow> world" where
  "addEmailRecord w =
     (case getProperty (scriptProperties w) ''SPREADSHEET_ID'' True of
        Inl e \<Rightarrow> w
      | Inr None \<Rightarrow> w
      | Inr (Some sid) \<Rightarrow> snd (openById w sid))"

definition updateRecordStatus :: "world \<Rightarrow> world" where
  "updateRecordStatus w =
     (case getProperty (scriptProperties w) ''SPREADSHEET_ID'' True of
        Inl e \<Rightarrow> w
      | Inr None \<Rightarrow> w
      | Inr (Some sid) \<Rightarrow> snd (openById w sid))"

subsection \<open>Attachments\<close>

definition isPdf :: "attachment \<Rightarrow> bool" where
  "isPdf a = endsWith (toLowerCase (attachmentName a)) ''.pdf''"

text \<open>The URL of the Drive folder with the given id (\<^verbatim>\<open>folder.getUrl()\<close>).\<close>

definition folderUrl :: "string \<Rightarrow> string" where
  "folderUrl folderId = ''https://drive.google.com/drive/folders/'' @ folderId"

text \<open>\<^verbatim>\<open>DriveApp.getFolderById(id)\<close>: whether it returns the folder.\<close>

definition getFolderById :: "world \<Rightarrow> string \<Rightarrow> bool" where
  "getFolderById w folderId = (driveReachable w \<and> folderId \<in> set (map fst (driveFolders w)))"

text \<open>
  \<^verbatim>\<open>saveAttachmentToDrive\<close>: throws when \<^verbatim>\<open>Utilities.formatDate\<close> has no date or
  when Drive refuses the file; otherwise the file is in the folder.
\<close>

definition saveAttachmentToDrive ::
    "world \<Rightarrow> attachment \<Rightarrow> string \<Rightarrow> instant option \<Rightarrow> (attachmentInfo \<times> world) option" where
  "saveAttachmentToDrive w a folderId emailDate =
     (if emailDate = None \<or> \<not> canBeSaved a then None
      else Some
        (\<lparr>originalName = attachmentName a,
          driveUrl = Some (folderUrl folderId @ ''/'' @ attachmentName a), skipped = None,
          saveError = False, infoContentKey = None, isDuplicate = False\<rparr>,
         w\<lparr>driveFiles := driveFiles w @ [attachmentName a]\<rparr>))"

text \<open>
  One turn of the \<^verbatim>\<open>attachments.forEach\<close> of \<^verbatim>\<open>processAttachments\<close>. The names
  passed to \<^verbatim>\<open>recordContentDuplicate\<close> are the array that
  \<^verbatim>\<open>generateContentDuplicateKey\<close> has sorted in place.
\<close>

definition processAttachment ::
    "instant \<Rightarrow> string \<Rightarrow> instant option \<Rightarrow> string \<Rightarrow> string \<Rightarrow> string list \<Rightarrow> string option
      \<Rightarrow> bool \<times> string option \<Rightarrow> attachmentInfo list \<times> world \<Rightarrow> nat \<times> attachment
      \<Rightarrow> attachmentInfo list \<times> world" where
  "processAttachment now subject emailDate sender folderId pdfNames contentKey duplicateInfo acc ia =
     (case acc of (infos, w) \<Rightarrow>
      case ia of (index, a) \<Rightarrow>
        if \<not> isPdf a then
          (infos @ [\<lparr>originalName = attachmentName a, driveUrl = None,
              skipped = Some ''Not a PDF file'', saveError = False, infoContentKey = None,
              isDuplicate = False\<rparr>], w)
        else if fst duplicateInfo then
          (infos @ [\<lparr>originalName = attachmentName a, driveUrl = snd duplicateInfo,
              skipped = Some ''Duplicate content - PDF already saved'', saveError = False,
              infoContentKey = contentKey, isDuplicate = True\<rparr>], w)
        else
          (case saveAttachmentToDrive w a folderId emailDate of
             None \<Rightarrow>
               (infos @ [\<lparr>originalName = attachmentName a, driveUrl = None, skipped = None,
                   saveError = True, infoContentKey = contentKey, isDuplicate = False\<rparr>], w)
           | Some (info, w') \<Rightarrow>
               (infos @ [info\<lparr>infoContentKey := contentKey\<rparr>],
                case contentKey of
                  None \<Rightarrow> w'
                | Some key \<Rightarrow>
                    if index = 0 \<and> key \<noteq> []
                    then recordContentDuplicate w' now key sender emailDate subject pdfNames
                           (folderUrl folderId)
                    else w')))"

text \<open>
  \<^verbatim>\<open>processAttachments(attachments, subject, emailDate, sender)\<close>. The result is
  the list of attachment infos, or the exception it throws (a missing
  \<^verbatim>\<open>DRIVE_FOLDER_ID\<close>, an unreachable base folder), with the world as it is then.
  The lookup of the content key and the append that may follow are two calls
  of \<^verbatim>\<open>openById\<close>.
\<close>

definition processAttachments ::
    "world \<Rightarrow> instant \<Rightarrow> attachment list \<Rightarrow> string \<Rightarrow> instant option \<Rightarrow> string
      \<Rightarrow> (error + attachmentInfo list) \<times> world" where
  "processAttachments w now atts subject emailDate sender =
     (if atts = [] then (Inr [], w)
      else
        (case getProperty (scriptProperties w) ''DRIVE_FOLDER_ID'' True of
           Inl e \<Rightarrow> (Inl e, w)
         | Inr None \<Rightarrow> (Inl (RequiredPropertyMissing ''DRIVE_FOLDER_ID''), w)
         | Inr (Some folderId) \<Rightarrow>
             (let pdfNames = map attachmentName (filter isPdf atts);
                  contentKey =
                    (if pdfNames = [] then None
                     else Some (generateContentDuplicateKey now sender emailDate subject pdfNames));
                  checked =
                    (case contentKey of
                       None \<Rightarrow> ((False, None), w)
                     | Some key \<Rightarrow> checkContentDuplicate w key);
                  sortedNames = (if emailDate = None then pdfNames else sort pdfNames)
              in if \<not> getFolderById (snd checked) folderId
                 then (Inl BaseFolderAccessFailed, snd checked)
                 else
                   (case foldl
                       (processAttachment now subject emailDate sender folderId sortedNames
                          contentKey (fst checked))
                       ([], snd checked) (zip [0..<length atts] atts)
                    of (infos, w') \<Rightarrow> (Inr infos, w')))))"

subsection \<open>One message\<close>

text \<open>
  Modelled from the spec: \<^verbatim>\<open>sendSlackNotification\<close>, whose file is not among the
  sources. It is the notification sink, called once per processed message
  inside a \<^verbatim>\<open>try\<close> block; the model records the subject of each notification
  that went out.
\<close>

definition sendSlackNotification :: "world \<Rightarrow> string \<Rightarrow> world" where
  "sendSlackNotification w subject =
     (if slackReachable w then w\<lparr>slackNotifications := slackNotifications w @ [subject]\<rparr>
      else w)"

text \<open>
  \<^verbatim>\<open>processMessage(message)\<close>, with \<^verbatim>\<open>checkSubjectPattern\<close> as a parameter (the
  regular expressions are configuration). An exception of
  \<^verbatim>\<open>processAttachments\<close> is caught (``continue with notification even if
  attachment processing fails''), and so is one of the notification; the
  function returns \<^verbatim>\<open>true\<close> for every message whose subject matches.
\<close>

definition processMessage ::
    "world \<Rightarrow> instant \<Rightarrow> (string \<Rightarrow> bool) \<Rightarrow> message \<Rightarrow> bool \<times> world" where
  "processMessage w now checkSubjectPattern msg =
     (if \<not> checkSubjectPattern (messageSubject msg) then (False, w)
      else
        (let w0 = addEmailRecord w;
             w1 =
               (if attachments msg = [] then w0
                else if filter isPdf (attachments msg) = [] then w0
                else snd (processAttachments w0 now (attachments msg) (messageSubject msg)
                            (Some (messageDate msg)) (messageFrom msg)));
             w2 = sendSlackNotification w1 (messageSubject msg)
         in (True, updateRecordStatus w2)))"

text \<open>
  The body of \<^verbatim>\<open>messages.forEach\<close> in \<^verbatim>\<open>processEmails\<close>, on the world and the
  flag \<^verbatim>\<open>threadHasNewMessages\<close>; \<open>processOneMessage\<close> is the world it leaves.
\<close>

definition processThreadMessage ::
    "instant \<Rightarrow> (string \<Rightarrow> bool) \<Rightarrow> world \<times> bool \<Rightarrow> message \<Rightarrow> world \<times> bool" where
  "processThreadMessage now checkSubjectPattern acc msg =
     (case acc of (w, threadHasNewMessages) \<Rightarrow>
        if inTrash msg then (w, threadHasNewMessages)
        else
          (case isMessageAlreadyProcessed w msg of
             (True, w1) \<Rightarrow> (w1, threadHasNewMessages)
           | (False, w1) \<Rightarrow>
               (case processMessage w1 now checkSubjectPattern msg of
                  (True, w2) \<Rightarrow> (markMessageAsProcessed w2 now msg, True)
                | (False, w2) \<Rightarrow> (w2, threadHasNewMessages))))"

definition processOneMessage ::
    "world \<Rightarrow> instant \<Rightarrow> (string \<Rightarrow> bool) \<Rightarrow> message \<Rightarrow> world" where
  "processOneMessage w now checkSubjectPattern msg =
     fst (processThreadMessage now checkSubjectPattern (w, False) msg)"

subsection \<open>One invocation\<close>

text \<open>
  \<^verbatim>\<open>addProcessedLabel(thread)\<close>: the thread gets the label; an exception is
  caught and logged.
\<close>

definition addProcessedLabel :: "world \<Rightarrow> thread \<Rightarrow> world" where
  "addProcessedLabel w t =
     (if labelReachable w then w\<lparr>processedLabel := List.insert (threadId t) (processedLabel w)\<rparr>
      else w)"

text \<open>
  The search \<^verbatim>\<open>GmailApp.search(query, 0, CONFIG.MAX_EMAILS_PER_RUN * 3)\<close>: the
  first 30 threads of the monitored senders that do not carry the label.
\<close>

definition searchThreads :: "world \<Rightarrow> thread list" where
  "searchThreads w = take 30 (filter (\<lambda>t. threadId t \<notin> set (processedLabel w)) (mailbox w))"

text \<open>The body of \<^verbatim>\<open>threads.forEach\<close>, and the loop.\<close>

definition processThread :: "world \<Rightarrow> instant \<Rightarrow> (string \<Rightarrow> bool) \<Rightarrow> thread \<Rightarrow> world" where
  "processThread w now checkSubjectPattern t =
     (case foldl (processThreadMessage now checkSubjectPattern) (w, False) (threadMessages t) of
        (w', threadHasNewMessages) \<Rightarrow>
          if threadHasNewMessages then addProcessedLabel w' t else w')"

definition processThreads ::
    "world \<Rightarrow> instant \<Rightarrow> (string \<Rightarrow> bool) \<Rightarrow> thread list \<Rightarrow> world" where
  "processThreads w now checkSubjectPattern threads =
     foldl (\<lambda>w' t. processThread w' now checkSubjectPattern t) w threads"

text \<open>
  \<^verbatim>\<open>getConfiguredSenderEmails()\<close>: the non-empty values of \<^verbatim>\<open>SENDER_EMAIL\<close> and
  of \<^verbatim>\<open>SENDER_EMAIL_1\<close> to \<^verbatim>\<open>SENDER_EMAIL_20\<close>, each once and in this order.
\<close>

definition getConfiguredSenderEmails :: "properties \<Rightarrow> string list" where
  "getConfiguredSenderEmails ps =
     rev (remdups (rev
       (concat (map
          (\<lambda>key. case getProperty ps key False of
                    Inr (Some email) \<Rightarrow> if email = [] then [] else [email]
                  | _ \<Rightarrow> [])
          (''SENDER_EMAIL'' # map (\<lambda>i. ''SENDER_EMAIL_'' @ digits i) [1..<21])))))"

text \<open>
  \<^verbatim>\<open>getOrCreateDriveFolder()\<close>: the folder that \<^verbatim>\<open>DRIVE_FOLDER_ID\<close> names when it
  can be opened; otherwise the first folder with the configured name, or a
  new folder, whose id is then written to the property. The result is the
  folder id or the exception.
\<close>

definition getOrCreateDriveFolder :: "world \<Rightarrow> instant \<Rightarrow> (error + string) \<times> world" where
  "getOrCreateDriveFolder w now =
     (let configured =
            (case getProperty (scriptProperties w) ''DRIVE_FOLDER_ID'' True of
               Inr (Some folderId) \<Rightarrow> if getFolderById w folderId then Some folderId else None
             | _ \<Rightarrow> None)
      in case configured of
           Some folderId \<Rightarrow> (Inr folderId, w)
         | None \<Rightarrow>
             if \<not> driveReachable w then (Inl DriveServiceFailed, w)
             else
               (case find (\<lambda>(folderId, name). name = DRIVE_FOLDER_NAME) (driveFolders w) of
                  Some (folderId, name) \<Rightarrow>
                    (Inr folderId,
                     w\<lparr>scriptProperties :=
                         setProperty (int now) ''DRIVE_FOLDER_ID'' folderId (scriptProperties w)\<rparr>)
                | None \<Rightarrow>
                    (let folderId = freshId (map fst (driveFolders w))
                     in (Inr folderId,
                         w\<lparr>driveFolders := driveFolders w @ [(folderId, DRIVE_FOLDER_NAME)],
                           scriptProperties :=
                             setProperty (int now) ''DRIVE_FOLDER_ID'' folderId
                               (scriptProperties w)\<rparr>))))"

text \<open>
  \<^verbatim>\<open>createOrGetSpreadsheet()\<close>: the spreadsheet that \<^verbatim>\<open>SPREADSHEET_ID\<close> names when
  it opens; otherwise the first spreadsheet of Drive with the configured
  name (an exception of \<^verbatim>\<open>openById\<close> is thrown on here), or a new spreadsheet
  with the two ledger tabs; the id is then written to the property. The
  Drive of the model holds no other file of that name.
\<close>

definition createOrGetSpreadsheet :: "world \<Rightarrow> instant \<Rightarrow> (error + string) \<times> world" where
  "createOrGetSpreadsheet w now =
     (let opened =
            (case configuredSpreadsheetId w of
               None \<Rightarrow> (None, w)
             | Some sid \<Rightarrow>
                 (case openById w sid of
                    (None, w') \<Rightarrow> (None, w')
                  | (Some s, w') \<Rightarrow> (Some sid, w')))
      in case opened of
           (Some sid, w1) \<Rightarrow> (Inr sid, w1)
         | (None, w1) \<Rightarrow>
             if \<not> driveReachable w1 then (Inl DriveServiceFailed, w1)
             else
               (case find (\<lambda>(sid, s). spreadsheetName s = SPREADSHEET_NAME) (spreadsheets w1) of
                  Some (sid, s) \<Rightarrow>
                    (case openById w1 sid of
                       (None, w2) \<Rightarrow> (Inl SpreadsheetServiceFailed, w2)
                     | (Some s', w2) \<Rightarrow>
                         (Inr sid,
                          w2\<lparr>scriptProperties :=
                              setProperty (int now) ''SPREADSHEET_ID'' sid (scriptProperties w2)\<rparr>))
                | None \<Rightarrow>
                    (case nextSpreadsheetCall w1 of
                       (False, w2) \<Rightarrow> (Inl SpreadsheetServiceFailed, w2)
                     | (True, w2) \<Rightarrow>
                         (let sid = freshId (map fst (spreadsheets w2))
                          in (Inr sid,
                              w2\<lparr>spreadsheets := spreadsheets w2 @
                                    [(sid, \<lparr>spreadsheetName = SPREADSHEET_NAME,
                                            processedSheet = Some [],
                                            duplicateSheet = Some []\<rparr>)],
                                 scriptProperties :=
                                   setProperty (int now) ''SPREADSHEET_ID'' sid
                                     (scriptProperties w2)\<rparr>)))))"

text \<open>
  \<^verbatim>\<open>validateConfiguration()\<close>: \<open>None\<close> when it returns, the exception when it
  throws (\<^verbatim>\<open>CONFIG.ENABLE_SPREADSHEET_LOGGING\<close> is \<^verbatim>\<open>true\<close>).
\<close>

definition validateConfiguration :: "world \<Rightarrow> instant \<Rightarrow> error option \<times> world" where
  "validateConfiguration w now =
     (if getConfiguredSenderEmails (scriptProperties w) = [] then (Some NoSenderEmails, w)
      else
        (case getProperty (scriptProperties w) ''SLACK_WEBHOOK_URL'' True of
           Inl e \<Rightarrow> (Some e, w)
         | Inr None \<Rightarrow> (Some InvalidWebhookUrl, w)
         | Inr (Some webhookUrl) \<Rightarrow>
             if \<not> startsWith webhookUrl ''https://hooks.slack.com/''
             then (Some InvalidWebhookUrl, w)
             else
               (case getOrCreateDriveFolder w now of
                  (Inl e, w1) \<Rightarrow> (Some e, w1)
                | (Inr folderId, w1) \<Rightarrow>
                    (case createOrGetSpreadsheet w1 now of
                       (Inl e, w2) \<Rightarrow> (Some e, w2)
                     | (Inr sid, w2) \<Rightarrow> (None, w2)))))"

text \<open>
  \<^verbatim>\<open>processEmails()\<close>: validate, search, walk the threads. An exception of
  \<^verbatim>\<open>validateConfiguration\<close> ends the invocation before any thread is looked at
  (the error notification of the \<^verbatim>\<open>catch\<close> block is not part of the state);
  inside the loop no exception reaches the \<^verbatim>\<open>catch\<close> blocks of the loop.
\<close>

definition processEmails ::
    "world \<Rightarrow> instant \<Rightarrow> (string \<Rightarrow> bool) \<Rightarrow> error option \<times> world" where
  "processEmails w now checkSubjectPattern =
     (case validateConfiguration w now of
        (Some e, w1) \<Rightarrow> (Some e, w1)
      | (None, w1) \<Rightarrow> (None, processThreads w1 now checkSubjectPattern (searchThreads w1)))"

section \<open>Notions used to state the properties\<close>

text \<open>The entries of a store whose key does not start with \<^verbatim>\<open>PROCESSED_MSG_\<close>, in order.\<close>

definition nonProcessed :: "properties \<Rightarrow> properties" where
  "nonProcessed ps = filter (\<lambda>(k, v). \<not> startsWith k PROCESSED_MSG) ps"

text \<open>
  The timestamped \<^verbatim>\<open>PROCESSED_MSG_\<close> entries in order of age: the \<open>n\<close> oldest,
  and the ones after them.
\<close>

definition oldestProcessed :: "nat \<Rightarrow> properties \<Rightarrow> (string \<times> int) list" where
  "oldestProcessed n ps = take n (sort_key snd (collectProcessed ps))"

definition laterProcessed :: "nat \<Rightarrow> properties \<Rightarrow> (string \<times> int) list" where
  "laterProcessed n ps = drop n (sort_key snd (collectProcessed ps))"

text \<open>A store of 48 properties of which one is a processed-message entry.\<close>

definition configOnlyStore :: properties where
  "configOnlyStore =
     map (\<lambda>i. (''RECIPIENT_EMAIL_'' @ [char_of (65 + i)], ''ops@example.com'')) [0..<47]
       @ [(''PROCESSED_MSG_m1'', ''1000'')]"

text \<open>Two strings that differ only in letter case and white space.\<close>

definition sameModuloCaseAndSpace :: "string \<Rightarrow> string \<Rightarrow> bool" where
  "sameModuloCaseAndSpace a b =
     (toLowerCase (filter (\<lambda>c. \<not> isWhiteSpace c) a)
        = toLowerCase (filter (\<lambda>c. \<not> isWhiteSpace c) b))"

text \<open>The number a decimal numeral denotes (the inverse of \<^const>\<open>digits\<close>).\<close>

definition decimalValue :: "string \<Rightarrow> nat" where
  "decimalValue s = foldl (\<lambda>a c. 10 * a + (of_char c - 48)) 0 s"

text \<open>A store at the limit: 42 configuration properties and six processed-message entries.\<close>

definition fullStore :: properties where
  "fullStore =
     map (\<lambda>i. (''RECIPIENT_EMAIL_'' @ [char_of (65 + i)], ''ops@example.com'')) [0..<42]
       @ [(''PROCESSED_MSG_a'', ''300''), (''PROCESSED_MSG_b'', ''100''),
          (''PROCESSED_MSG_c'', ''200''), (''PROCESSED_MSG_d'', ''600''),
          (''PROCESSED_MSG_e'', ''500''), (''PROCESSED_MSG_f'', ''400'')]"

text \<open>
  Two processed-message entries whose timestamps are one Number value: \<open>2^53 + 1\<close>
  is no double and rounds to \<open>2^53\<close>.
\<close>

definition roundedStore :: properties where
  "roundedStore =
     [(''PROCESSED_MSG_a'', ''9007199254740993''), (''PROCESSED_MSG_b'', ''9007199254740992'')]"

text \<open>A small store that mixes configuration and processed-message entries.\<close>

definition mixedStore :: properties where
  "mixedStore =
     [(''SLACK_WEBHOOK_URL'', ''https://hooks.slack.com/services/T'' ),
      (''PROCESSED_MSG_a'', ''1000''),
      (''DRIVE_FOLDER_ID'', ''folder-1''),
      (''PROCESSED_MSG_b'', ''500''),
      (''SENDER_EMAIL_1'', ''noreply@tool.example.com''),
      (''SPREADSHEET_ID'', ''sheet-1'')]"

text \<open>
  Whether the spreadsheet that \<^verbatim>\<open>SPREADSHEET_ID\<close> names exists, whether the next
  call of \<^verbatim>\<open>openById\<close> on it succeeds, and whether every call to come does.
\<close>

definition spreadsheetExists :: "world \<Rightarrow> bool" where
  "spreadsheetExists w = (currentSpreadsheet w \<noteq> None)"

definition spreadsheetOpens :: "world \<Rightarrow> bool" where
  "spreadsheetOpens w = (fst (nextSpreadsheetCall w) \<and> spreadsheetExists w)"

definition spreadsheetReachable :: "world \<Rightarrow> bool" where
  "spreadsheetReachable w = (list_all (\<lambda>answered. answered) (spreadsheetCalls w) \<and> spreadsheetExists w)"

text \<open>The world after one call of the spreadsheet service.\<close>

definition afterCall :: "world \<Rightarrow> world" where
  "afterCall w = snd (nextSpreadsheetCall w)"

text \<open>What the processing of a message never changes.\<close>

definition environment ::
    "world \<Rightarrow> properties \<times> bool \<times> bool \<times> (string \<times> string) list \<times> bool \<times> thread list \<times> bool \<times> string list" where
  "environment w =
     (scriptProperties w, spreadsheetExists w, driveReachable w, driveFolders w, slackReachable w,
      mailbox w, labelReachable w, processedLabel w)"

text \<open>
  A later state of an invocation: the environment is the same, and the
  outcomes of the calls to come are among those that were to come.
\<close>

definition followsFrom :: "world \<Rightarrow> world \<Rightarrow> bool" where
  "followsFrom w' w =
     (environment w' = environment w \<and> set (spreadsheetCalls w') \<subseteq> set (spreadsheetCalls w))"

text \<open>The row that \<^verbatim>\<open>markMessageAsProcessed\<close> writes for a message.\<close>

definition processedRowFor :: "instant \<Rightarrow> message \<Rightarrow> processedRow" where
  "processedRowFor now msg =
     \<lparr>processedAt = now, rowMessageId = messageId msg, processedContentKey = [],
      processedSubject = messageSubject msg, processedSender = messageFrom msg,
      status = ''Success''\<rparr>"

text \<open>
  Example worlds and messages: a configured deployment with empty ledgers and
  one thread in the mailbox, whose mail has one PDF; the same mail when Drive
  refuses the file; the deployment with a leftover \<^verbatim>\<open>PROCESSED_MSG_\<close> property,
  and with the mail already in the Processing Ledger.
\<close>

definition emptySpreadsheet :: spreadsheet where
  "emptySpreadsheet =
     \<lparr>spreadsheetName = SPREADSHEET_NAME, processedSheet = Some [], duplicateSheet = Some []\<rparr>"

definition loanMessage :: message where
  "loanMessage =
     \<lparr>messageId = ''m1'', messageSubject = ''Loan Agreement signed by A'',
      messageFrom = ''a@x.com'', messageDate = 1719019800000, inTrash = False,
      attachments = [\<lparr>attachmentName = ''loan.pdf'', canBeSaved = True\<rparr>]\<rparr>"

definition loanThread :: thread where
  "loanThread = \<lparr>threadId = ''t1'', threadMessages = [loanMessage]\<rparr>"

definition baseWorld :: world where
  "baseWorld =
     \<lparr>scriptProperties =
        [(''SENDER_EMAIL_1'', ''a@x.com''),
         (''SLACK_WEBHOOK_URL'', ''https://hooks.slack.com/services/T''),
         (''SPREADSHEET_ID'', ''sheet-1''), (''DRIVE_FOLDER_ID'', ''folder-1'')],
      spreadsheetCalls = [],
      spreadsheets = [(''sheet-1'', emptySpreadsheet)],
      driveReachable = True, driveFolders = [(''folder-1'', DRIVE_FOLDER_NAME)], driveFiles = [],
      slackReachable = True, slackNotifications = [],
      mailbox = [loanThread], labelReachable = True, processedLabel = []\<rparr>"

definition unsavableMessage :: message where
  "unsavableMessage =
     loanMessage\<lparr>attachments := [\<lparr>attachmentName = ''loan.pdf'', canBeSaved = False\<rparr>]\<rparr>"

definition cachedWorld :: world where
  "cachedWorld = baseWorld\<lparr>scriptProperties :=
     scriptProperties baseWorld @ [(''PROCESSED_MSG_m1'', ''1000'')]\<rparr>"

definition handledWorld :: world where
  "handledWorld =
     baseWorld\<lparr>spreadsheets :=
       [(''sheet-1'', emptySpreadsheet\<lparr>processedSheet :=
          Some [processedRowFor 1719019000000 loanMessage]\<rparr>)]\<rparr>"

text \<open>
  The mail delivered a second time (a new message id, the same content), in a
  thread of its own; and the deployment in which the spreadsheet answers the
  call of \<^verbatim>\<open>validateConfiguration\<close> and no later call of the invocation.
\<close>

definition resentMessage :: message where
  "resentMessage = loanMessage\<lparr>messageId := ''m2''\<rparr>"

definition outageWorld :: world where
  "outageWorld = baseWorld\<lparr>spreadsheetCalls := [True, False, False, False, False, False, False]\<rparr>"

text \<open>The deployment whose spreadsheet answers none of the next six calls.\<close>

definition downWorld :: world where
  "downWorld = baseWorld\<lparr>spreadsheetCalls := [False, False, False, False, False, False]\<rparr>"

text \<open>A subject check that every subject passes.\<close>

definition everySubject :: "string \<Rightarrow> bool" where
  "everySubject subject = True"

text \<open>
  The deployment after the mail has been processed, when the spreadsheet
  answers the two calls that come next and not the call after them; and the
  world that the invocation with the outage leaves.
\<close>

definition repeatWorld :: world where
  "repeatWorld =
     (processOneMessage baseWorld 1719019900000 everySubject loanMessage)
       \<lparr>spreadsheetCalls := [True, True, False]\<rparr>"

definition afterOutage :: world where
  "afterOutage = snd (processEmails outageWorld 1719019900000 everySubject)"

section \<open>Properties of the script-property store\<close>

declare digits.simps [simp del] yearOf.simps [simp del] ulpExponent.simps [simp del]

lemma toNumber_exact: "m < 2 ^ 53 \<Longrightarrow> toNumber m = m"
  by (subst toNumber_def, subst ulpExponent.simps) (simp add: Let_def)

lemma deleteProperty_filter: "deleteProperty k ps = filter (\<lambda>(k', v). k' \<noteq> k) ps"
  by (induction ps) (auto simp: deleteProperty_def)

lemma foldl_delete_keys:
  "fst (foldl (\<lambda>(store, n) item. (deleteProperty (fst item) store, n + 1)) (ps, c) items)
     = filter (\<lambda>(k, v). k \<notin> fst ` set items) ps"
proof (induction items arbitrary: ps c)
  case Nil
  then show ?case by simp
next
  case (Cons a items)
  have "filter (\<lambda>(k, v). k \<notin> fst ` set items) (deleteProperty (fst a) ps)
      = filter (\<lambda>(k, v). k \<notin> fst ` set (a # items)) ps"
    unfolding filter_filter deleteProperty_filter by (rule filter_cong) auto
  then show ?case
    by (simp add: Cons.IH)
qed

lemma snd_foldl_delete_keys:
  "snd (foldl (\<lambda>(store, n) item. (deleteProperty (fst item) store, n + 1)) (ps, c) items)
     = c + length items"
  by (induction items arbitrary: ps c) simp_all

lemma collectProcessed_keys:
  "(k, t) \<in> set (collectProcessed ps) \<Longrightarrow> startsWith k PROCESSED_MSG \<and> k \<in> fst ` set ps"
  unfolding collectProcessed_def
  by (induction ps) (auto split: if_splits option.splits)

lemma nonProcessed_delete:
  "startsWith k PROCESSED_MSG \<Longrightarrow> nonProcessed (deleteProperty k ps) = nonProcessed ps"
  unfolding nonProcessed_def deleteProperty_filter filter_filter
  by (rule filter_cong) auto

lemma foldl_frame:
  assumes "\<And>st x. nonProcessed (fst (f st x)) = nonProcessed (fst st)"
  shows "nonProcessed (fst (foldl f st xs)) = nonProcessed (fst st)"
  by (induction xs arbitrary: st) (simp_all add: assms)

lemma rotate_fst:
  "fst (rotateProcessedMessages n ps)
     = filter (\<lambda>(k, v). k \<notin> fst ` set (oldestProcessed n ps)) ps"
  unfolding rotateProcessedMessages_def Let_def foldl_delete_keys oldestProcessed_def
  by (simp add: min_def)

lemma rotate_snd:
  "snd (rotateProcessedMessages n ps) = min n (length (collectProcessed ps))"
  unfolding rotateProcessedMessages_def Let_def snd_foldl_delete_keys
  by simp

lemma oldest_keys:
  assumes "k \<in> fst ` set (oldestProcessed n ps)"
  shows "startsWith k PROCESSED_MSG \<and> k \<in> fst ` set ps"
proof -
  from assms obtain t where "(k, t) \<in> set (oldestProcessed n ps)" by force
  then have "(k, t) \<in> set (sort_key snd (collectProcessed ps))"
    unfolding oldestProcessed_def by (rule in_set_takeD)
  then have "(k, t) \<in> set (collectProcessed ps)" by simp
  then show ?thesis by (rule collectProcessed_keys)
qed

lemma rotate_frame: "nonProcessed (fst (rotateProcessedMessages n ps)) = nonProcessed ps"
proof -
  have "filter (\<lambda>(k, v). \<not> startsWith k PROCESSED_MSG)
          (filter (\<lambda>(k, v). k \<notin> fst ` set (oldestProcessed n ps)) ps)
      = filter (\<lambda>(k, v). \<not> startsWith k PROCESSED_MSG) ps"
    unfolding filter_filter using oldest_keys by (intro filter_cong) auto
  then show ?thesis
    unfolding rotate_fst nonProcessed_def .
qed

lemma cleanup_frame:
  "nonProcessed (fst (cleanupOldProcessedMessages now d ps)) = nonProcessed ps"
  unfolding cleanupOldProcessedMessages_def Let_def
  by (subst foldl_frame) (auto simp: nonProcessed_delete split: option.splits)

lemma clearAll_frame:
  "nonProcessed (fst (clearAllProcessedMessages ps)) = nonProcessed ps"
  unfolding clearAllProcessedMessages_def
  by (subst foldl_frame) (auto simp: nonProcessed_delete split: option.splits)

lemma map_of_nonProcessed:
  "\<not> startsWith k PROCESSED_MSG \<Longrightarrow> map_of (nonProcessed ps) k = map_of ps k"
  unfolding nonProcessed_def by (induction ps) auto

lemma frame_lookup:
  assumes "nonProcessed ps' = nonProcessed ps" and "\<not> startsWith k PROCESSED_MSG"
  shows "map_of ps' k = map_of ps k"
  using map_of_nonProcessed [OF assms(2), of ps'] map_of_nonProcessed [OF assms(2), of ps] assms(1)
  by simp

lemma update_new_key:
  "k \<notin> fst ` set al \<Longrightarrow> AList.update k v al = al @ [(k, v)]"
  by (induction al) auto

lemma oldest_before_later:
  assumes "e \<in> set (oldestProcessed n ps)" and "r \<in> set (laterProcessed n ps)"
  shows "snd e \<le> snd r"
proof -
  let ?S = "sort_key snd (collectProcessed ps)"
  have "sorted (map snd (take n ?S @ drop n ?S))" by simp
  then have "\<forall>x\<in>set (map snd (take n ?S)). \<forall>y\<in>set (map snd (drop n ?S)). x \<le> y"
    unfolding map_append sorted_append by blast
  then show ?thesis
    using assms unfolding oldestProcessed_def laterProcessed_def by simp
qed

text \<open>
  Claim C10. Rotation, the age-based cleanup and the clearing of the processed
  messages delete script properties whose key starts with \<^verbatim>\<open>PROCESSED_MSG_\<close>
  only: the other entries of the store are the same entries, in the same
  order and with the same values, after each of the three operations, and so
  is what a lookup of any other key returns.
\<close>

theorem cleanup_keeps_other_properties:
  "nonProcessed (fst (rotateProcessedMessages n ps)) = nonProcessed ps
   \<and> nonProcessed (fst (cleanupOldProcessedMessages now daysOld ps)) = nonProcessed ps
   \<and> nonProcessed (fst (clearAllProcessedMessages ps)) = nonProcessed ps
   \<and> (\<forall>k. \<not> startsWith k PROCESSED_MSG \<longrightarrow>
          map_of (fst (rotateProcessedMessages n ps)) k = map_of ps k
        \<and> map_of (fst (cleanupOldProcessedMessages now daysOld ps)) k = map_of ps k
        \<and> map_of (fst (clearAllProcessedMessages ps)) k = map_of ps k)"
  by (intro conjI allI impI)
    (simp_all add: rotate_frame cleanup_frame clearAll_frame frame_lookup [OF rotate_frame]
       frame_lookup [OF cleanup_frame] frame_lookup [OF clearAll_frame])

theorem cleanup_keeps_other_properties_witness:
  "snd (rotateProcessedMessages 1 mixedStore) = 1
   \<and> snd (clearAllProcessedMessages mixedStore) = 2
   \<and> nonProcessed (fst (rotateProcessedMessages 1 mixedStore))
       = [(''SLACK_WEBHOOK_URL'', ''https://hooks.slack.com/services/T''),
          (''DRIVE_FOLDER_ID'', ''folder-1''),
          (''SENDER_EMAIL_1'', ''noreply@tool.example.com''),
          (''SPREADSHEET_ID'', ''sheet-1'')]
   \<and> map_of (fst (cleanupOldProcessedMessages 300000000 3 mixedStore)) ''SPREADSHEET_ID''
       = Some ''sheet-1''
   \<and> map_of (fst (clearAllProcessedMessages mixedStore)) ''DRIVE_FOLDER_ID'' = Some ''folder-1''"
proof -
  have a: "snd (rotateProcessedMessages 1 mixedStore) = 1"
    and b: "snd (clearAllProcessedMessages mixedStore) = 2"
    by code_simp+
  have c: "nonProcessed mixedStore
       = [(''SLACK_WEBHOOK_URL'', ''https://hooks.slack.com/services/T''),
          (''DRIVE_FOLDER_ID'', ''folder-1''),
          (''SENDER_EMAIL_1'', ''noreply@tool.example.com''),
          (''SPREADSHEET_ID'', ''sheet-1'')]"
    by code_simp
  have d: "\<not> startsWith ''SPREADSHEET_ID'' PROCESSED_MSG"
    and e: "\<not> startsWith ''DRIVE_FOLDER_ID'' PROCESSED_MSG"
    by code_simp+
  have f: "map_of mixedStore ''SPREADSHEET_ID'' = Some ''sheet-1''"
    and g: "map_of mixedStore ''DRIVE_FOLDER_ID'' = Some ''folder-1''"
    by (simp_all add: mixedStore_def)
  show ?thesis
    using cleanup_keeps_other_properties [of 1 mixedStore 300000000 3] a b c d e f g
    by simp
qed

text \<open>
  Timestamps are compared as the Number values \<^verbatim>\<open>parseInt\<close> returns: of two
  entries whose values round to the same double, the stable sort keeps the
  one enumerated first in front, and the rotation deletes it.
\<close>

lemma rotate_rounded_timestamps:
  "collectProcessed roundedStore
     = [(''PROCESSED_MSG_a'', 9007199254740992), (''PROCESSED_MSG_b'', 9007199254740992)]
   \<and> fst (rotateProcessedMessages 1 roundedStore) = [(''PROCESSED_MSG_b'', ''9007199254740992'')]"
  by code_simp

text \<open>
  Claim C9, as the code has it. When a new key that starts with
  \<^verbatim>\<open>PROCESSED_MSG_\<close> is set while the store holds 48 keys or more, the store
  afterwards is the old store without the at most five oldest timestamped
  processed-message entries, followed by the new entry: five of them when at
  least five exist, all of them otherwise. The timestamp of an entry is the
  Number value that \<^verbatim>\<open>parseInt\<close> gives for its value. Every evicted entry is at
  most as recent as every timestamped entry that stays (first in, first
  out), and the key being inserted is never among the evicted ones.
\<close>

theorem setProperty_rotates_oldest:
  assumes "startsWith key PROCESSED_MSG"
    and "key \<notin> set (propertyKeys ps)"
    and "48 \<le> length (propertyKeys ps)"
  shows "setProperty now key value ps
           = filter (\<lambda>(k, v). k \<notin> fst ` set (oldestProcessed 5 ps)) ps @ [(key, value)]
       \<and> length (oldestProcessed 5 ps) = min 5 (length (collectProcessed ps))
       \<and> (\<forall>e\<in>set (oldestProcessed 5 ps). \<forall>r\<in>set (laterProcessed 5 ps). snd e \<le> snd r)
       \<and> key \<notin> fst ` set (oldestProcessed 5 ps)"
proof -
  have new: "key \<notin> fst ` set ps"
    using assms(2) by (simp add: propertyKeys_def)
  then have "key \<notin> fst ` set (filter (\<lambda>(k, v). k \<notin> fst ` set (oldestProcessed 5 ps)) ps)"
    by auto
  then have 1: "setProperty now key value ps
           = filter (\<lambda>(k, v). k \<notin> fst ` set (oldestProcessed 5 ps)) ps @ [(key, value)]"
    using assms unfolding setProperty_def Let_def putProperty_def rotate_fst
    by (simp add: update_new_key)
  have 2: "length (oldestProcessed 5 ps) = min 5 (length (collectProcessed ps))"
    unfolding oldestProcessed_def by simp
  have 3: "\<forall>e\<in>set (oldestProcessed 5 ps). \<forall>r\<in>set (laterProcessed 5 ps). snd e \<le> snd r"
    using oldest_before_later by blast
  have 4: "key \<notin> fst ` set (oldestProcessed 5 ps)"
    using new oldest_keys by blast
  show ?thesis using 1 2 3 4 by blast
qed

theorem setProperty_rotates_oldest_witness:
  "startsWith ''PROCESSED_MSG_new'' PROCESSED_MSG
   \<and> ''PROCESSED_MSG_new'' \<notin> set (propertyKeys fullStore)
   \<and> 48 \<le> length (propertyKeys fullStore)
   \<and> oldestProcessed 5 fullStore
       = [(''PROCESSED_MSG_b'', 100), (''PROCESSED_MSG_c'', 200), (''PROCESSED_MSG_a'', 300),
          (''PROCESSED_MSG_f'', 400), (''PROCESSED_MSG_e'', 500)]
   \<and> setProperty 5000 ''PROCESSED_MSG_new'' ''5000'' fullStore
       = nonProcessed fullStore @ [(''PROCESSED_MSG_d'', ''600''), (''PROCESSED_MSG_new'', ''5000'')]"
proof -
  have h1: "startsWith ''PROCESSED_MSG_new'' PROCESSED_MSG"
    by code_simp
  have h2: "''PROCESSED_MSG_new'' \<notin> set (propertyKeys fullStore)"
    by code_simp
  have h3: "48 \<le> length (propertyKeys fullStore)"
    by code_simp
  have o: "oldestProcessed 5 fullStore
       = [(''PROCESSED_MSG_b'', 100), (''PROCESSED_MSG_c'', 200), (''PROCESSED_MSG_a'', 300),
          (''PROCESSED_MSG_f'', 400), (''PROCESSED_MSG_e'', 500)]"
    by code_simp
  have f: "filter (\<lambda>(k, v). k \<notin> fst ` set [(''PROCESSED_MSG_b'', 100 :: int),
             (''PROCESSED_MSG_c'', 200), (''PROCESSED_MSG_a'', 300),
             (''PROCESSED_MSG_f'', 400), (''PROCESSED_MSG_e'', 500)]) fullStore
       = nonProcessed fullStore @ [(''PROCESSED_MSG_d'', ''600'')]"
    by code_simp
  show ?thesis
    using setProperty_rotates_oldest [OF h1 h2 h3, of 5000 "''5000''"] h1 h2 h3 o f
    by simp
qed

text \<open>
  The claim as the spec words it (a batch of exactly five is evicted whenever
  a new key finds 48 keys or more) fails on a store whose 48 keys hold a
  single processed-message entry: one entry is evicted, and the store holds
  48 keys again after the insertion.
\<close>

theorem setProperty_batch_of_five_counterexample:
  "length (propertyKeys configOnlyStore) = 48
   \<and> startsWith ''PROCESSED_MSG_m2'' PROCESSED_MSG
   \<and> ''PROCESSED_MSG_m2'' \<notin> set (propertyKeys configOnlyStore)
   \<and> snd (rotateProcessedMessages 5 configOnlyStore) = 1
   \<and> length (setProperty 5000 ''PROCESSED_MSG_m2'' ''2000'' configOnlyStore) = 48"
  by code_simp

section \<open>Properties of the content fingerprint\<close>

subsection \<open>Evaluation of the platform functions on literals\<close>

lemma bytes_le_4:
  "bytes_le 4 w = [w mod 256, w div 256 mod 256, w div 256 div 256 mod 256,
     w div 256 div 256 div 256 mod 256]"
  by (simp add: numeral_eq_Suc)

lemma bytes_le_8:
  "bytes_le 8 w = [w mod 256, w div 256 mod 256, w div 256 div 256 mod 256,
     w div 256 div 256 div 256 mod 256, w div 256 div 256 div 256 div 256 mod 256,
     w div 256 div 256 div 256 div 256 div 256 mod 256,
     w div 256 div 256 div 256 div 256 div 256 div 256 mod 256,
     w div 256 div 256 div 256 div 256 div 256 div 256 div 256 mod 256]"
  by (simp add: numeral_eq_Suc)

lemma replicate_numeral_unfold: "replicate (numeral k) x = x # replicate (pred_numeral k) x"
  by (simp add: numeral_eq_Suc)

lemma char_eq_char_of: "c = char_of n \<longleftrightarrow> take_bit 8 n = of_char c"
  using char_of_eq_iff [of n c] by auto

lemmas string_eval =
  startsWith_def endsWith_def isUpper_def isLower_def isDigit_def isAlnum_def lowerChar_def
  toLowerCase_def isWhiteSpace_def char_of_eq_iff char_eq_char_of

lemmas date_eval =
  formatDate_def formatDateKey_def yearOf.simps daysInYear_def isLeapYear_def monthLengths_def
  pad_def digits.simps digitChar_def char_of_eq_iff

lemmas md5_eval =
  md5_def md5_pad_def md5_block_def md5_F_def md5_G_def md5_H_def md5_I_def
  md5_round1_def md5_round2_def md5_round3_def md5_round4_def
  add32_def rotl32_def not32_def bytes_le_4 bytes_le_8 replicate_numeral_unfold

lemmas key_eval = combinedKey_def senderKey_def subjectKey_def pdfKey_def

lemmas hash_eval = contentHash_def base64Char_def md5_eval

text \<open>The test vectors of RFC 1321 for the empty string and for \<^verbatim>\<open>abc\<close>.\<close>

lemma md5_empty:
  "md5 [] = [0xd4, 0x1d, 0x8c, 0xd9, 0x8f, 0x00, 0xb2, 0x04, 0xe9, 0x80, 0x09, 0x98, 0xec, 0xf8, 0x42, 0x7e]"
  by (simp add: md5_eval)

lemma md5_abc:
  "md5 (map of_char ''abc'')
     = [0x90, 0x01, 0x50, 0x98, 0x3c, 0xd2, 0x4f, 0xb0, 0xd6, 0x96, 0x3f, 0x7d, 0x28, 0xe1, 0x7f, 0x72]"
  by (simp add: md5_eval)

lemma date_1030: "formatDateKey 1719019800000 = ''20240622_1030''"
  by (simp add: date_eval)

lemma date_1032: "formatDateKey 1719019920000 = ''20240622_1032''"
  by (simp add: date_eval)

lemma key_some:
  "generateContentDuplicateKey now sender (Some t) subject pdfNames
     = ''CONTENT_'' @ contentHash (combinedKey sender (formatDateKey t) subject pdfNames)"
  by (simp add: generateContentDuplicateKey_def formatDate_def)

lemma key_none:
  "generateContentDuplicateKey now sender None subject pdfNames = ''CONTENT_'' @ digits now"
  by (simp add: generateContentDuplicateKey_def formatDate_def)

subsection \<open>Case, white space and order\<close>

lemma of_char_lowerChar:
  "(of_char (lowerChar c) :: nat) = (if isUpper c then of_char c + 32 else of_char c)"
  by (simp add: lowerChar_def isUpper_def)

lemma isAlnum_lowerChar: "isAlnum (lowerChar c) = isAlnum c"
  unfolding isAlnum_def isUpper_def isLower_def isDigit_def of_char_lowerChar
  by (auto simp: isUpper_def)

lemma lowerChar_eq_iff:
  assumes "\<not> isLower d"
  shows "lowerChar c = d \<longleftrightarrow> c = d \<and> \<not> isUpper c"
proof -
  have "lowerChar c = d \<longleftrightarrow> (of_char (lowerChar c) :: nat) = of_char d"
    by simp
  also have "\<dots> \<longleftrightarrow> (of_char c :: nat) = of_char d \<and> \<not> isUpper c"
    using assms unfolding of_char_lowerChar isLower_def isUpper_def by auto
  finally show ?thesis by simp
qed

lemma lowerChar_punct:
  "lowerChar c = CHR ''@'' \<longleftrightarrow> c = CHR ''@''"
  "lowerChar c = CHR ''.'' \<longleftrightarrow> c = CHR ''.''"
  "lowerChar c = CHR '','' \<longleftrightarrow> c = CHR '',''"
  by (auto simp: lowerChar_eq_iff isLower_def isUpper_def)

lemma whiteSpace_not_kept:
  "isWhiteSpace c \<Longrightarrow>
     \<not> isAlnum c \<and> c \<noteq> CHR ''@'' \<and> c \<noteq> CHR ''.'' \<and> c \<noteq> CHR '',''"
  by (auto simp: isWhiteSpace_def isAlnum_def isUpper_def isLower_def isDigit_def)

lemma normalise_after_fold:
  assumes "\<And>c. P (lowerChar c) = P c" and "\<And>c. isWhiteSpace c \<Longrightarrow> \<not> P c"
  shows "toLowerCase (filter P s)
           = filter P (toLowerCase (filter (\<lambda>c. \<not> isWhiteSpace c) s))"
  unfolding toLowerCase_def
  by (induction s) (auto simp: assms)

lemma senderKey_cong:
  "sameModuloCaseAndSpace a b \<Longrightarrow> senderKey a = senderKey b"
  unfolding senderKey_def sameModuloCaseAndSpace_def
  by (subst (1 2) normalise_after_fold)
    (auto simp: isAlnum_lowerChar lowerChar_punct dest: whiteSpace_not_kept)

lemma subjectKey_cong:
  "sameModuloCaseAndSpace a b \<Longrightarrow> subjectKey a = subjectKey b"
  unfolding subjectKey_def sameModuloCaseAndSpace_def
  by (subst (1 2) normalise_after_fold)
    (auto simp: isAlnum_lowerChar dest: whiteSpace_not_kept)

lemma pdfKey_perm: "mset a = mset b \<Longrightarrow> pdfKey a = pdfKey b"
proof -
  assume "mset a = mset b"
  then have "sort a = sort b"
    by (intro properties_for_sort) simp_all
  then show ?thesis by (simp add: pdfKey_def)
qed

text \<open>
  Claim C5. For a sender, an instant, a subject and a list of attachment
  names, the fingerprint is the same for every permutation of the attachment
  names and for every sender and subject that differ from the given ones in
  letter case and white space only, whenever the two computations are made;
  in particular for the lists \<open>[a, b]\<close> and \<open>[b, a]\<close>.
\<close>

theorem fingerprint_order_case_space:
  assumes "mset pdfNames' = mset pdfNames"
    and "sameModuloCaseAndSpace sender sender'"
    and "sameModuloCaseAndSpace subject subject'"
  shows "generateContentDuplicateKey now sender (Some t) subject pdfNames
       = generateContentDuplicateKey now' sender' (Some t) subject' pdfNames'"
  using pdfKey_perm [OF assms(1)] senderKey_cong [OF assms(2)] subjectKey_cong [OF assms(3)]
  by (simp add: generateContentDuplicateKey_def formatDate_def combinedKey_def)

theorem fingerprint_order_case_space_witness:
  "mset [''nda.pdf'', ''loan.pdf''] = mset [''loan.pdf'', ''nda.pdf'']
   \<and> sameModuloCaseAndSpace ''a@x.com'' '' A@X.com''
   \<and> sameModuloCaseAndSpace ''Loan Agreement'' ''LOAN  agreement''
   \<and> generateContentDuplicateKey 1719019800500 ''a@x.com'' (Some 1719019800000)
         ''Loan Agreement'' [''loan.pdf'', ''nda.pdf'']
       = generateContentDuplicateKey 1719019900000 '' A@X.com'' (Some 1719019800000)
         ''LOAN  agreement'' [''nda.pdf'', ''loan.pdf'']"
proof -
  have h1: "mset [''nda.pdf'', ''loan.pdf''] = mset [''loan.pdf'', ''nda.pdf'']"
    by (simp add: add_mset_commute)
  have h2: "sameModuloCaseAndSpace ''a@x.com'' '' A@X.com''"
    by (simp add: sameModuloCaseAndSpace_def string_eval)
  have h3: "sameModuloCaseAndSpace ''Loan Agreement'' ''LOAN  agreement''"
    by (simp add: sameModuloCaseAndSpace_def string_eval)
  show ?thesis
    using fingerprint_order_case_space [OF h1 h2 h3, of 1719019800500 1719019800000 1719019900000]
      h1 h2 h3
    by simp
qed

subsection \<open>The letter case of attachment names\<close>

lemma key_loan_Nda:
  "combinedKey ''a@x.com'' ''20240622_1030'' ''Loan Agreement'' [''loan.pdf'', ''Nda.pdf'']
     = ''a@x.com_20240622_1030_loanagreement_nda.pdf,loan.pdf''"
  by (simp add: key_eval string_eval)

lemma key_loan_nda:
  "combinedKey ''a@x.com'' ''20240622_1030'' ''Loan Agreement'' [''loan.pdf'', ''nda.pdf'']
     = ''a@x.com_20240622_1030_loanagreement_loan.pdf,nda.pdf''"
  by (simp add: key_eval string_eval)

lemma hash_nda_loan:
  "contentHash ''a@x.com_20240622_1030_loanagreement_nda.pdf,loan.pdf'' = ''vxuKr/5s3SeBVaCQ''"
  by (simp add: hash_eval)

lemma hash_loan_nda:
  "contentHash ''a@x.com_20240622_1030_loanagreement_loan.pdf,nda.pdf'' = ''V8q2iKRaMGEm1l6m''"
  by (simp add: hash_eval)

text \<open>
  Claim C6. The attachment names are sorted before they are lower-cased, so
  a change of letter case that changes their order changes the fingerprint:
  for the mail of 2024-06-22 10:30 JST from \<^verbatim>\<open>a@x.com\<close> with the subject
  \<^verbatim>\<open>Loan Agreement\<close>, the names \<^verbatim>\<open>loan.pdf, Nda.pdf\<close> and their lower-case
  variants \<^verbatim>\<open>loan.pdf, nda.pdf\<close> give two different fingerprints.
\<close>

theorem attachment_case_changes_fingerprint:
  "generateContentDuplicateKey now ''a@x.com'' (Some 1719019800000) ''Loan Agreement''
       [''loan.pdf'', ''Nda.pdf''] = ''CONTENT_vxuKr/5s3SeBVaCQ''
   \<and> generateContentDuplicateKey now ''a@x.com'' (Some 1719019800000) ''Loan Agreement''
       [''loan.pdf'', ''nda.pdf''] = ''CONTENT_V8q2iKRaMGEm1l6m''
   \<and> toLowerCase ''Nda.pdf'' = ''nda.pdf''
   \<and> generateContentDuplicateKey now ''a@x.com'' (Some 1719019800000) ''Loan Agreement''
       [''loan.pdf'', ''Nda.pdf'']
     \<noteq> generateContentDuplicateKey now ''a@x.com'' (Some 1719019800000) ''Loan Agreement''
       [''loan.pdf'', ''nda.pdf'']"
  by (simp add: key_some date_1030 key_loan_Nda key_loan_nda hash_nda_loan hash_loan_nda
      toLowerCase_def lowerChar_def isUpper_def char_of_eq_iff)

text \<open>A single attachment name, as in the example of the spec, is insensitive to case.\<close>

lemma pdfKey_single_case:
  "toLowerCase a = toLowerCase b \<Longrightarrow> pdfKey [a] = pdfKey [b]"
proof -
  assume eq: "toLowerCase a = toLowerCase b"
  have "toLowerCase (filter P s) = filter P (toLowerCase s)"
    if "\<And>c. P (lowerChar c) = P c" for P s
    unfolding toLowerCase_def by (induction s) (auto simp: that)
  then have "pdfKey [s] = filter (\<lambda>c. isAlnum c \<or> c = CHR ''.'' \<or> c = CHR '','') (toLowerCase s)"
    for s
    by (simp add: pdfKey_def isAlnum_lowerChar lowerChar_punct)
  with eq show ?thesis by simp
qed

subsection \<open>Time\<close>

lemma decimalValue_append:
  "decimalValue (s @ [c]) = 10 * decimalValue s + (of_char c - 48)"
  by (simp add: decimalValue_def)

lemma of_char_digitChar: "d < 10 \<Longrightarrow> (of_char (digitChar d) :: nat) = 48 + d"
  by (simp add: digitChar_def)

lemma decimalValue_digits: "decimalValue (digits n) = n"
proof (induction n rule: digits.induct)
  case (1 n)
  show ?case
  proof (cases "n < 10")
    case True
    then show ?thesis
      by (subst digits.simps) (simp add: decimalValue_def of_char_digitChar)
  next
    case False
    then have "decimalValue (digits n) = 10 * decimalValue (digits (n div 10)) + (n mod 10)"
      by (subst digits.simps) (simp add: decimalValue_append of_char_digitChar)
    with 1 False show ?thesis by simp
  qed
qed

lemma digits_inj: "digits m = digits n \<Longrightarrow> m = n"
proof -
  assume "digits m = digits n"
  then have "decimalValue (digits m) = decimalValue (digits n)" by simp
  then show ?thesis by (simp only: decimalValue_digits)
qed

lemma decimalValue_zeros: "decimalValue (replicate k (CHR ''0'') @ s) = decimalValue s"
proof -
  have "foldl (\<lambda>a c. 10 * a + (of_char c - 48)) 0 (replicate k (CHR ''0'')) = (0::nat)"
    by (induction k) simp_all
  then show ?thesis by (simp add: decimalValue_def)
qed

lemma decimalValue_pad: "decimalValue (pad w n) = n"
  by (simp add: pad_def decimalValue_zeros decimalValue_digits)

lemma pad_inj: "pad w m = pad w' n \<Longrightarrow> m = n"
proof -
  assume "pad w m = pad w' n"
  then have "decimalValue (pad w m) = decimalValue (pad w' n)" by simp
  then show ?thesis by (simp only: decimalValue_pad)
qed

lemma length_digits_small: "n < 100 \<Longrightarrow> length (digits n) \<le> 2"
proof -
  assume n: "n < 100"
  have one: "length (digits k) = 1" if "k < 10" for k
    using that by (subst digits.simps) simp
  show ?thesis
  proof (cases "n < 10")
    case True
    then show ?thesis by (simp add: one)
  next
    case False
    with n have "n div 10 < 10" by simp
    then have "length (digits (n div 10)) = 1" by (rule one)
    with False show ?thesis by (subst digits.simps) simp
  qed
qed

lemma length_pad2: "n < 100 \<Longrightarrow> length (pad 2 n) = 2"
  using length_digits_small [of n] by (simp add: pad_def)

lemma yearOf_sound:
  "yearOf y d = (y', r) \<Longrightarrow>
     r < daysInYear y' \<and> y \<le> y' \<and> d = (\<Sum>i = y..<y'. daysInYear i) + r"
proof (induction y d rule: yearOf.induct)
  case (1 y d)
  show ?case
  proof (cases "d < daysInYear y")
    case True
    with "1.prems" show ?thesis by (simp add: yearOf.simps [of y d])
  next
    case False
    with "1.prems" have rec: "yearOf (y + 1) (d - daysInYear y) = (y', r)"
      by (simp add: yearOf.simps [of y d])
    from "1.IH" [OF False rec]
    have ih: "r < daysInYear y'" "y + 1 \<le> y'"
      "d - daysInYear y = (\<Sum>i = y + 1..<y'. daysInYear i) + r"
      by simp_all
    have "(\<Sum>i = y..<y'. daysInYear i) = daysInYear y + (\<Sum>i = y + 1..<y'. daysInYear i)"
      using ih(2) by (simp add: sum.atLeast_Suc_lessThan)
    with ih False show ?thesis by simp
  qed
qed

lemma monthOf_sound:
  "monthOf ls m d = (m', r) \<Longrightarrow> d < sum_list ls \<Longrightarrow>
     m \<le> m' \<and> m' < m + length ls \<and> d = sum_list (take (m' - m) ls) + r \<and> r < ls ! (m' - m)"
proof (induction ls arbitrary: m d)
  case Nil
  then show ?case by simp
next
  case (Cons l ls)
  show ?case
  proof (cases "d < l")
    case True
    with Cons.prems show ?thesis by simp
  next
    case False
    with Cons.prems have rec: "monthOf ls (m + 1) (d - l) = (m', r)" and lt: "d - l < sum_list ls"
      by auto
    from Cons.IH [OF rec lt]
    have ih: "m + 1 \<le> m'" "m' < m + 1 + length ls"
      "d - l = sum_list (take (m' - (m + 1)) ls) + r" "r < ls ! (m' - (m + 1))"
      by simp_all
    from ih(1) obtain j where j: "m' - m = Suc j" "m' - (m + 1) = j"
      by (metis Suc_diff_Suc Suc_eq_plus1 diff_diff_left less_eq_Suc_le)
    with ih False show ?thesis by simp
  qed
qed

lemma sum_list_monthLengths: "sum_list (monthLengths y) = daysInYear y"
  by (simp add: monthLengths_def daysInYear_def)

lemma monthLengths_le: "i < 12 \<Longrightarrow> monthLengths y ! i \<le> 31"
proof -
  assume "i < 12"
  then have "monthLengths y ! i \<in> set (monthLengths y)"
    by (intro nth_mem) (simp add: monthLengths_def)
  then show ?thesis by (auto simp: monthLengths_def)
qed

lemma append_split:
  "xs @ us = ys @ vs \<Longrightarrow> length xs = length ys \<Longrightarrow> xs = ys \<and> us = vs"
  by simp

text \<open>The rendering of an instant determines its minute.\<close>

lemma formatDateKey_minute:
  assumes "formatDateKey t = formatDateKey t'"
  shows "t div 60000 = t' div 60000"
proof -
  define M where "M = t div 60000 + 540"
  define M' where "M' = t' div 60000 + 540"
  obtain y doy where Y: "yearOf 1970 (M div 1440) = (y, doy)" by force
  obtain y' doy' where Y': "yearOf 1970 (M' div 1440) = (y', doy')" by force
  obtain m dom where Mo: "monthOf (monthLengths y) 1 doy = (m, dom)" by force
  obtain m' dom' where Mo': "monthOf (monthLengths y') 1 doy' = (m', dom')" by force
  note ys = yearOf_sound [OF Y] and ys' = yearOf_sound [OF Y']
  have ms: "1 \<le> m \<and> m < 13 \<and> doy = sum_list (take (m - 1) (monthLengths y)) + dom
      \<and> dom < monthLengths y ! (m - 1)"
    using monthOf_sound [OF Mo] ys by (simp add: sum_list_monthLengths) (simp add: monthLengths_def)
  have ms': "1 \<le> m' \<and> m' < 13 \<and> doy' = sum_list (take (m' - 1) (monthLengths y')) + dom'
      \<and> dom' < monthLengths y' ! (m' - 1)"
    using monthOf_sound [OF Mo'] ys' by (simp add: sum_list_monthLengths) (simp add: monthLengths_def)
  have "monthLengths y ! (m - 1) \<le> 31" using ms by (intro monthLengths_le) arith
  with ms have dom: "dom + 1 < 100" by simp
  have "monthLengths y' ! (m' - 1) \<le> 31" using ms' by (intro monthLengths_le) arith
  with ms' have dom': "dom' + 1 < 100" by simp
  have len: "length (pad 2 m) = 2" "length (pad 2 m') = 2"
    "length (pad 2 (dom + 1)) = 2" "length (pad 2 (dom' + 1)) = 2"
    "length (pad 2 (M mod 1440 div 60)) = 2" "length (pad 2 (M' mod 1440 div 60)) = 2"
    "length (pad 2 (M mod 60)) = 2" "length (pad 2 (M' mod 60)) = 2"
    using ms ms' dom dom' by (simp_all add: length_pad2)
  have eq: "pad 4 y @ pad 2 m @ pad 2 (dom + 1) @ ''_'' @ pad 2 (M mod 1440 div 60) @ pad 2 (M mod 60)
      = pad 4 y' @ pad 2 m' @ pad 2 (dom' + 1) @ ''_'' @ pad 2 (M' mod 1440 div 60) @ pad 2 (M' mod 60)"
    using assms Y Y' Mo Mo' unfolding formatDateKey_def M_def [symmetric] M'_def [symmetric]
    by simp
  from arg_cong [OF eq, of length] len have ly: "length (pad 4 y) = length (pad 4 y')"
    by simp
  from append_split [OF eq ly] have 1: "pad 4 y = pad 4 y'"
    and r1: "pad 2 m @ pad 2 (dom + 1) @ ''_'' @ pad 2 (M mod 1440 div 60) @ pad 2 (M mod 60)
      = pad 2 m' @ pad 2 (dom' + 1) @ ''_'' @ pad 2 (M' mod 1440 div 60) @ pad 2 (M' mod 60)"
    by simp_all
  from append_split [OF r1] len have 2: "pad 2 m = pad 2 m'"
    and r2: "pad 2 (dom + 1) @ ''_'' @ pad 2 (M mod 1440 div 60) @ pad 2 (M mod 60)
      = pad 2 (dom' + 1) @ ''_'' @ pad 2 (M' mod 1440 div 60) @ pad 2 (M' mod 60)"
    by simp_all
  from append_split [OF r2] len have 3: "pad 2 (dom + 1) = pad 2 (dom' + 1)"
    and r3: "''_'' @ pad 2 (M mod 1440 div 60) @ pad 2 (M mod 60)
      = ''_'' @ pad 2 (M' mod 1440 div 60) @ pad 2 (M' mod 60)"
    by simp_all
  from r3 len have 4: "pad 2 (M mod 1440 div 60) = pad 2 (M' mod 1440 div 60)"
    and 5: "pad 2 (M mod 60) = pad 2 (M' mod 60)"
    by simp_all
  from 1 have y: "y = y'" by (rule pad_inj)
  from 2 have m: "m = m'" by (rule pad_inj)
  from 3 have "dom + 1 = dom' + 1" by (rule pad_inj)
  then have d: "dom = dom'" by simp
  from 4 have h: "M mod 1440 div 60 = M' mod 1440 div 60" by (rule pad_inj)
  from 5 have mi: "M mod 60 = M' mod 60" by (rule pad_inj)
  from ms ms' y m d have "doy = doy'" by simp
  with ys ys' y have days: "M div 1440 = M' div 1440" by simp
  have "M mod 1440 = 60 * (M mod 1440 div 60) + M mod 60"
    by (simp add: mod_mult2_eq [of M 60 24, simplified])
  moreover have "M' mod 1440 = 60 * (M' mod 1440 div 60) + M' mod 60"
    by (simp add: mod_mult2_eq [of M' 60 24, simplified])
  ultimately have "M mod 1440 = M' mod 1440" using h mi by simp
  with days have "M = M'" by (metis div_mult_mod_eq)
  then show ?thesis by (simp add: M_def M'_def)
qed

text \<open>Two instants of the same minute are rendered alike: the rendering truncates to the minute.\<close>

lemma formatDateKey_truncates:
  "t div 60000 = t' div 60000 \<Longrightarrow> formatDateKey t = formatDateKey t'"
  by (simp add: formatDateKey_def)

lemma far_apart_minutes:
  "t + 60000 \<le> t' \<Longrightarrow> t div 60000 \<noteq> t' div (60000::nat)"
proof -
  assume "t + 60000 \<le> t'"
  then have "(t + 60000) div 60000 \<le> t' div 60000" by (rule div_le_mono)
  then show ?thesis by simp
qed

lemma combinedKey_date_inj:
  "combinedKey sender k subject pdfNames = combinedKey sender k' subject pdfNames \<Longrightarrow> k = k'"
  by (simp add: combinedKey_def)

lemma key_1030:
  "combinedKey ''a@x.com'' ''20240622_1030'' ''Loan Agreement'' [''loan.pdf'']
     = ''a@x.com_20240622_1030_loanagreement_loan.pdf''"
  by (simp add: key_eval string_eval)

lemma key_1032:
  "combinedKey ''a@x.com'' ''20240622_1032'' ''Loan Agreement'' [''loan.pdf'']
     = ''a@x.com_20240622_1032_loanagreement_loan.pdf''"
  by (simp add: key_eval string_eval)

lemma hash_1030:
  "contentHash ''a@x.com_20240622_1030_loanagreement_loan.pdf'' = ''mRGb2IYYWOauR9iv''"
  by (simp add: hash_eval)

lemma hash_1032:
  "contentHash ''a@x.com_20240622_1032_loanagreement_loan.pdf'' = ''zRMPyNBTEy/C19G8''"
  by (simp add: hash_eval)

text \<open>
  Two computations for the same sender, subject and attachment names whose
  instants fall into different minutes (as all instants do that are a minute
  or more apart) hash different strings. Whether the fingerprints differ then
  rests on the first 16 characters of the Base64 form of the two MD5 digests;
  they do in the example of 10:30 and 10:32 on 2024-06-22.
\<close>

lemma hashed_string_time_sensitive:
  assumes "t div 60000 \<noteq> t' div 60000"
  shows "combinedKey sender (formatDateKey t) subject pdfNames
       \<noteq> combinedKey sender (formatDateKey t') subject pdfNames"
proof
  assume "combinedKey sender (formatDateKey t) subject pdfNames
       = combinedKey sender (formatDateKey t') subject pdfNames"
  then have "formatDateKey t = formatDateKey t'" by (rule combinedKey_date_inj)
  then have "t div 60000 = t' div 60000" by (rule formatDateKey_minute)
  with assms show False by simp
qed

lemma fingerprint_two_minutes_apart:
  "generateContentDuplicateKey 1719019800500 ''a@x.com'' (Some 1719019800000)
       ''Loan Agreement'' [''loan.pdf''] = ''CONTENT_mRGb2IYYWOauR9iv''
   \<and> generateContentDuplicateKey 1719019920500 ''a@x.com'' (Some 1719019920000)
       ''Loan Agreement'' [''loan.pdf''] = ''CONTENT_zRMPyNBTEy/C19G8''"
  by (simp add: key_some date_1030 date_1032 key_1030 key_1032 hash_1030 hash_1032)

subsection \<open>The fallback key\<close>

lemma length_bytes_le: "length (bytes_le n w) = n"
  by (induction n arbitrary: w) simp_all

lemma length_md5: "length (md5 bs) = 16"
proof -
  obtain a b c d where
    "foldl md5_block (0x67452301, 0xefcdab89, 0x98badcfe, 0x10325476)
       (map (\<lambda>blk. map le32 (chunks 4 blk)) (chunks 64 (md5_pad bs))) = (a, b, c, d)"
    using prod_cases4 by blast
  then show ?thesis by (simp add: md5_def length_bytes_le)
qed

lemma length_base64Encode: "length (base64Encode bs) = 4 * ((length bs + 2) div 3)"
proof (induction bs rule: base64Encode.induct)
  case (4 b0 b1 b2 bs)
  have "(length (b0 # b1 # b2 # bs) + 2) div 3 = (length bs + 2) div 3 + 1"
    by simp
  with 4 show ?case by simp
qed simp_all

lemma length_contentHash: "length (contentHash k) = 16"
  by (simp add: contentHash_def length_base64Encode length_md5)

lemma length_digits_bound: "0 < k \<Longrightarrow> n < 10 ^ k \<Longrightarrow> length (digits n) \<le> k"
proof (induction k arbitrary: n)
  case 0
  then show ?case by simp
next
  case (Suc k)
  show ?case
  proof (cases "n < 10")
    case True
    then show ?thesis by (subst digits.simps) simp
  next
    case False
    with Suc.prems have k: "0 < k" by (cases k) simp_all
    from Suc.prems have "n div 10 < 10 ^ k" by (simp add: less_mult_imp_div_less mult.commute)
    from Suc.IH [OF k this] False show ?thesis by (subst digits.simps) simp
  qed
qed

text \<open>
  Claim C8. The function is total and every key it returns starts with
  \<^verbatim>\<open>CONTENT_\<close>. When the date is missing or invalid, the key is \<^verbatim>\<open>CONTENT_\<close>
  followed by the wall-clock instant in decimal. Such a key differs from the
  fallback key of any other instant, and (the instant having at most 15
  digits) from every key made from a digest, so the record it stands for
  never counts as a duplicate.
\<close>

theorem fallback_key_unique:
  "startsWith (generateContentDuplicateKey now sender date subject pdfNames) ''CONTENT_''
   \<and> generateContentDuplicateKey now sender None subject pdfNames = ''CONTENT_'' @ digits now
   \<and> (now \<noteq> now' \<longrightarrow>
        generateContentDuplicateKey now sender None subject pdfNames
          \<noteq> generateContentDuplicateKey now' sender' None subject' pdfNames')
   \<and> (now < 10 ^ 15 \<longrightarrow>
        generateContentDuplicateKey now sender None subject pdfNames
          \<noteq> generateContentDuplicateKey now' sender' (Some t) subject' pdfNames')"
proof (intro conjI impI)
  show "startsWith (generateContentDuplicateKey now sender date subject pdfNames) ''CONTENT_''"
    by (cases date) (simp_all add: key_some key_none startsWith_def)
  show "generateContentDuplicateKey now sender None subject pdfNames = ''CONTENT_'' @ digits now"
    by (rule key_none)
  show "generateContentDuplicateKey now sender None subject pdfNames
          \<noteq> generateContentDuplicateKey now' sender' None subject' pdfNames'" if "now \<noteq> now'"
  proof
    assume "generateContentDuplicateKey now sender None subject pdfNames
          = generateContentDuplicateKey now' sender' None subject' pdfNames'"
    then have "digits now = digits now'" by (simp add: key_none)
    then have "now = now'" by (rule digits_inj)
    with that show False by simp
  qed
  show "generateContentDuplicateKey now sender None subject pdfNames
          \<noteq> generateContentDuplicateKey now' sender' (Some t) subject' pdfNames'" if "now < 10 ^ 15"
  proof
    assume "generateContentDuplicateKey now sender None subject pdfNames
          = generateContentDuplicateKey now' sender' (Some t) subject' pdfNames'"
    then have "digits now = contentHash (combinedKey sender' (formatDateKey t) subject' pdfNames')"
      by (simp add: key_some key_none)
    then have "length (digits now) = 16" by (simp add: length_contentHash)
    moreover have "length (digits now) \<le> 15" using that by (intro length_digits_bound) simp_all
    ultimately show False by simp
  qed
qed

theorem fallback_key_unique_witness:
  "generateContentDuplicateKey 1719019800123 ''a@x.com'' None ''Loan Agreement'' [''loan.pdf'']
     = ''CONTENT_1719019800123''
   \<and> generateContentDuplicateKey 1719019800123 ''a@x.com'' None ''Loan Agreement'' [''loan.pdf'']
     \<noteq> generateContentDuplicateKey 1719019800124 ''a@x.com'' None ''Loan Agreement'' [''loan.pdf'']
   \<and> generateContentDuplicateKey 1719019800123 ''a@x.com'' None ''Loan Agreement'' [''loan.pdf'']
     \<noteq> generateContentDuplicateKey 1719019800124 ''a@x.com'' (Some 1719019800000)
         ''Loan Agreement'' [''loan.pdf'']"
proof -
  note th = fallback_key_unique [of 1719019800123 "''a@x.com''" None "''Loan Agreement''"
        "[''loan.pdf'']" 1719019800124 "''a@x.com''" "''Loan Agreement''" "[''loan.pdf'']"
        1719019800000]
  have d: "digits 1719019800123 = ''1719019800123''"
    by (simp add: digits.simps digitChar_def char_of_eq_iff)
  have ne: "(1719019800123 :: nat) \<noteq> 1719019800124" and lt: "(1719019800123 :: nat) < 10 ^ 15"
    by simp_all
  from th have "generateContentDuplicateKey 1719019800123 ''a@x.com'' None ''Loan Agreement''
      [''loan.pdf''] = ''CONTENT_'' @ digits 1719019800123"
    by blast
  then have a: "generateContentDuplicateKey 1719019800123 ''a@x.com'' None ''Loan Agreement''
      [''loan.pdf''] = ''CONTENT_1719019800123''"
    by (simp add: d)
  from th ne
  have b: "generateContentDuplicateKey 1719019800123 ''a@x.com'' None ''Loan Agreement'' [''loan.pdf'']
     \<noteq> generateContentDuplicateKey 1719019800124 ''a@x.com'' None ''Loan Agreement'' [''loan.pdf'']"
    by blast
  from th lt
  have c: "generateContentDuplicateKey 1719019800123 ''a@x.com'' None ''Loan Agreement'' [''loan.pdf'']
     \<noteq> generateContentDuplicateKey 1719019800124 ''a@x.com'' (Some 1719019800000)
         ''Loan Agreement'' [''loan.pdf'']"
    by blast
  show ?thesis
    using a b c by (intro conjI)
qed

section \<open>Properties of the ledgers and the coordinator\<close>


subsection \<open>Opening the spreadsheet\<close>

lemma next_fields [simp]:
  "scriptProperties (snd (nextSpreadsheetCall w)) = scriptProperties w"
  "spreadsheets (snd (nextSpreadsheetCall w)) = spreadsheets w"
  "driveReachable (snd (nextSpreadsheetCall w)) = driveReachable w"
  "driveFolders (snd (nextSpreadsheetCall w)) = driveFolders w"
  "driveFiles (snd (nextSpreadsheetCall w)) = driveFiles w"
  "slackReachable (snd (nextSpreadsheetCall w)) = slackReachable w"
  "slackNotifications (snd (nextSpreadsheetCall w)) = slackNotifications w"
  "mailbox (snd (nextSpreadsheetCall w)) = mailbox w"
  "labelReachable (snd (nextSpreadsheetCall w)) = labelReachable w"
  "processedLabel (snd (nextSpreadsheetCall w)) = processedLabel w"
  "spreadsheetCalls (snd (nextSpreadsheetCall w)) = tl (spreadsheetCalls w)"
  by (simp_all add: nextSpreadsheetCall_def split: list.splits)

lemma next_answer:
  "fst (nextSpreadsheetCall w) = (case spreadsheetCalls w of [] \<Rightarrow> True | answered # calls \<Rightarrow> answered)"
  by (simp add: nextSpreadsheetCall_def split: list.splits)

lemma afterCall_fields [simp]:
  "scriptProperties (afterCall w) = scriptProperties w"
  "spreadsheets (afterCall w) = spreadsheets w"
  "driveReachable (afterCall w) = driveReachable w"
  "driveFolders (afterCall w) = driveFolders w"
  "driveFiles (afterCall w) = driveFiles w"
  "slackReachable (afterCall w) = slackReachable w"
  "slackNotifications (afterCall w) = slackNotifications w"
  "mailbox (afterCall w) = mailbox w"
  "labelReachable (afterCall w) = labelReachable w"
  "processedLabel (afterCall w) = processedLabel w"
  "spreadsheetCalls (afterCall w) = tl (spreadsheetCalls w)"
  by (simp_all add: afterCall_def)

lemma afterCall_eq: "afterCall w = w\<lparr>spreadsheetCalls := tl (spreadsheetCalls w)\<rparr>"
  by (simp add: afterCall_def nextSpreadsheetCall_def split: list.splits)

lemma openById_eq:
  "openById w sid = (if fst (nextSpreadsheetCall w) then map_of (spreadsheets w) sid else None, afterCall w)"
  by (cases "nextSpreadsheetCall w")
     (auto simp: openById_def afterCall_def nextSpreadsheetCall_def split: list.splits)

lemma put_fields [simp]:
  "scriptProperties (putSpreadsheet w sid s) = scriptProperties w"
  "spreadsheets (putSpreadsheet w sid s) = AList.update sid s (spreadsheets w)"
  "driveReachable (putSpreadsheet w sid s) = driveReachable w"
  "driveFolders (putSpreadsheet w sid s) = driveFolders w"
  "driveFiles (putSpreadsheet w sid s) = driveFiles w"
  "slackReachable (putSpreadsheet w sid s) = slackReachable w"
  "slackNotifications (putSpreadsheet w sid s) = slackNotifications w"
  "mailbox (putSpreadsheet w sid s) = mailbox w"
  "labelReachable (putSpreadsheet w sid s) = labelReachable w"
  "processedLabel (putSpreadsheet w sid s) = processedLabel w"
  "spreadsheetCalls (putSpreadsheet w sid s) = spreadsheetCalls w"
  by (simp_all add: putSpreadsheet_def)

lemma configured_cong:
  "scriptProperties w' = scriptProperties w \<Longrightarrow> spreadsheetConfigured w' = spreadsheetConfigured w"
  by (simp add: spreadsheetConfigured_def)

lemma configuredId_cong:
  "scriptProperties w' = scriptProperties w \<Longrightarrow> configuredSpreadsheetId w' = configuredSpreadsheetId w"
  by (simp add: configuredSpreadsheetId_def spreadsheetConfigured_def)

lemma configuredId_None: "configuredSpreadsheetId w = None \<longleftrightarrow> \<not> spreadsheetConfigured w"
  by (auto simp: configuredSpreadsheetId_def spreadsheetConfigured_def getProperty_def
      split: option.splits)

lemma current_cong:
  "scriptProperties w' = scriptProperties w \<Longrightarrow> spreadsheets w' = spreadsheets w
     \<Longrightarrow> currentSpreadsheet w' = currentSpreadsheet w"
  by (simp add: currentSpreadsheet_def configuredSpreadsheetId_def spreadsheetConfigured_def
      split: option.splits)

lemma current_put:
  "configuredSpreadsheetId w = Some sid \<Longrightarrow> currentSpreadsheet (putSpreadsheet w sid s) = Some s"
  by (simp add: currentSpreadsheet_def configuredSpreadsheetId_def spreadsheetConfigured_def
      update_conv' split: if_splits)

lemma current_afterCall [simp]: "currentSpreadsheet (afterCall w) = currentSpreadsheet w"
  by (rule current_cong) simp_all

lemma configured_afterCall [simp]:
  "spreadsheetConfigured (afterCall w) = spreadsheetConfigured w"
  "configuredSpreadsheetId (afterCall w) = configuredSpreadsheetId w"
  by (simp_all add: configuredSpreadsheetId_def spreadsheetConfigured_def)

lemma configured_put [simp]:
  "spreadsheetConfigured (putSpreadsheet w sid s) = spreadsheetConfigured w"
  "configuredSpreadsheetId (putSpreadsheet w sid s) = configuredSpreadsheetId w"
  by (simp_all add: configuredSpreadsheetId_def spreadsheetConfigured_def)

lemma withSpreadsheet_unconfigured:
  "\<not> spreadsheetConfigured w \<Longrightarrow> withSpreadsheet w d f = (d, w)"
  by (simp add: withSpreadsheet_def configuredId_None [symmetric])

lemma withSpreadsheet_fails:
  "spreadsheetConfigured w \<Longrightarrow> \<not> spreadsheetOpens w \<Longrightarrow> withSpreadsheet w d f = (d, afterCall w)"
  by (auto simp: withSpreadsheet_def openById_eq spreadsheetOpens_def spreadsheetExists_def
      currentSpreadsheet_def configuredId_None split: option.splits)

lemma withSpreadsheet_opens:
  assumes "spreadsheetOpens w" and "configuredSpreadsheetId w = Some sid"
    and "currentSpreadsheet w = Some s"
  shows "withSpreadsheet w d f = (fst (f s), putSpreadsheet (afterCall w) sid (snd (f s)))"
  using assms
  by (auto simp: withSpreadsheet_def openById_eq spreadsheetOpens_def spreadsheetExists_def
      currentSpreadsheet_def split: option.splits prod.splits)

lemma opens_obtain:
  assumes "spreadsheetConfigured w" and "spreadsheetOpens w"
  obtains sid s where "configuredSpreadsheetId w = Some sid" and "currentSpreadsheet w = Some s"
proof -
  from assms(1) obtain sid where 1: "configuredSpreadsheetId w = Some sid"
    using configuredId_None [of w] by (cases "configuredSpreadsheetId w") auto
  from assms(2) obtain s where 2: "currentSpreadsheet w = Some s"
    by (auto simp: spreadsheetOpens_def spreadsheetExists_def)
  from 1 2 that show thesis by blast
qed


subsection \<open>What the ledger functions change\<close>

lemma rows_of_current:
  "currentSpreadsheet w = Some s \<Longrightarrow> processedRows w = sheetProcessedRows s"
  "currentSpreadsheet w = Some s \<Longrightarrow> duplicateRows w = sheetDuplicateRows s"
  by (simp_all add: processedRows_def duplicateRows_def)

lemma rows_afterCall [simp]:
  "processedRows (afterCall w) = processedRows w"
  "duplicateRows (afterCall w) = duplicateRows w"
  by (simp_all add: processedRows_def duplicateRows_def)

lemma exists_afterCall [simp]: "spreadsheetExists (afterCall w) = spreadsheetExists w"
  by (simp add: spreadsheetExists_def)

lemma environment_afterCall [simp]: "environment (afterCall w) = environment w"
  by (simp add: environment_def)

lemma sheet_create [simp]:
  "sheetProcessedRows (createOrGetProcessedSheet s) = sheetProcessedRows s"
  "sheetDuplicateRows (createOrGetProcessedSheet s) = sheetDuplicateRows s"
  "sheetProcessedRows (createOrGetContentDuplicateSheet s) = sheetProcessedRows s"
  "sheetDuplicateRows (createOrGetContentDuplicateSheet s) = sheetDuplicateRows s"
  by (simp_all add: sheetProcessedRows_def sheetDuplicateRows_def createOrGetProcessedSheet_def
      createOrGetContentDuplicateSheet_def split: option.splits)

lemma sheet_update [simp]:
  "sheetProcessedRows (s\<lparr>duplicateSheet := x\<rparr>) = sheetProcessedRows s"
  "sheetDuplicateRows (s\<lparr>processedSheet := y\<rparr>) = sheetDuplicateRows s"
  "sheetProcessedRows (s\<lparr>processedSheet := Some prs\<rparr>) = prs"
  "sheetDuplicateRows (s\<lparr>duplicateSheet := Some drs\<rparr>) = drs"
  by (simp_all add: sheetProcessedRows_def sheetDuplicateRows_def)

lemma ws_result:
  "fst (withSpreadsheet w d f) =
     (if spreadsheetConfigured w \<and> spreadsheetOpens w then fst (f (the (currentSpreadsheet w)))
      else d)"
proof (cases "spreadsheetConfigured w")
  case False
  then show ?thesis by (simp add: withSpreadsheet_unconfigured)
next
  case c: True
  show ?thesis
  proof (cases "spreadsheetOpens w")
    case False
    with c show ?thesis by (simp add: withSpreadsheet_fails)
  next
    case True
    from c True obtain sid s where "configuredSpreadsheetId w = Some sid" "currentSpreadsheet w = Some s"
      by (rule opens_obtain)
    with c True show ?thesis by (simp add: withSpreadsheet_opens)
  qed
qed

lemma ws_world:
  "snd (withSpreadsheet w d f) =
     (if \<not> spreadsheetConfigured w then w
      else if \<not> spreadsheetOpens w then afterCall w
      else putSpreadsheet (afterCall w) (the (configuredSpreadsheetId w))
             (snd (f (the (currentSpreadsheet w)))))"
proof (cases "spreadsheetConfigured w")
  case False
  then show ?thesis by (simp add: withSpreadsheet_unconfigured)
next
  case c: True
  show ?thesis
  proof (cases "spreadsheetOpens w")
    case False
    with c show ?thesis by (simp add: withSpreadsheet_fails)
  next
    case True
    from c True obtain sid s where "configuredSpreadsheetId w = Some sid" "currentSpreadsheet w = Some s"
      by (rule opens_obtain)
    with c True show ?thesis by (simp add: withSpreadsheet_opens)
  qed
qed

lemma put_view:
  assumes "spreadsheetConfigured w" and "spreadsheetOpens w"
  shows "environment (putSpreadsheet (afterCall w) (the (configuredSpreadsheetId w)) s') = environment w"
    and "processedRows (putSpreadsheet (afterCall w) (the (configuredSpreadsheetId w)) s') = sheetProcessedRows s'"
    and "duplicateRows (putSpreadsheet (afterCall w) (the (configuredSpreadsheetId w)) s') = sheetDuplicateRows s'"
proof -
  from assms obtain sid s where sid: "configuredSpreadsheetId w = Some sid"
    and s: "currentSpreadsheet w = Some s"
    by (rule opens_obtain)
  have cur: "currentSpreadsheet (putSpreadsheet (afterCall w) sid s') = Some s'"
    by (rule current_put) (simp add: sid)
  show "environment (putSpreadsheet (afterCall w) (the (configuredSpreadsheetId w)) s') = environment w"
    using cur s sid by (simp add: environment_def spreadsheetExists_def)
  show "processedRows (putSpreadsheet (afterCall w) (the (configuredSpreadsheetId w)) s') = sheetProcessedRows s'"
    using cur sid by (simp add: rows_of_current)
  show "duplicateRows (putSpreadsheet (afterCall w) (the (configuredSpreadsheetId w)) s') = sheetDuplicateRows s'"
    using cur sid by (simp add: rows_of_current)
qed

lemma ws_env: "environment (snd (withSpreadsheet w d f)) = environment w"
  by (simp add: ws_world put_view)

lemma ws_misc:
  "driveFiles (snd (withSpreadsheet w d f)) = driveFiles w"
  "slackNotifications (snd (withSpreadsheet w d f)) = slackNotifications w"
  "spreadsheetCalls (snd (withSpreadsheet w d f))
     = (if spreadsheetConfigured w then tl (spreadsheetCalls w) else spreadsheetCalls w)"
  by (simp_all add: ws_world)

lemma ws_rows:
  "processedRows (snd (withSpreadsheet w d f)) =
     (if spreadsheetConfigured w \<and> spreadsheetOpens w
      then sheetProcessedRows (snd (f (the (currentSpreadsheet w)))) else processedRows w)"
  "duplicateRows (snd (withSpreadsheet w d f)) =
     (if spreadsheetConfigured w \<and> spreadsheetOpens w
      then sheetDuplicateRows (snd (f (the (currentSpreadsheet w)))) else duplicateRows w)"
  by (simp_all add: ws_world put_view)

lemma opens_rows:
  assumes "spreadsheetOpens w"
  shows "sheetProcessedRows (the (currentSpreadsheet w)) = processedRows w"
    and "sheetDuplicateRows (the (currentSpreadsheet w)) = duplicateRows w"
  using assms
  by (auto simp: spreadsheetOpens_def spreadsheetExists_def processedRows_def duplicateRows_def)


lemma check_world:
  "environment (snd (checkContentDuplicate w k)) = environment w"
  "duplicateRows (snd (checkContentDuplicate w k)) = duplicateRows w"
  "processedRows (snd (checkContentDuplicate w k)) = processedRows w"
  "driveFiles (snd (checkContentDuplicate w k)) = driveFiles w"
  "slackNotifications (snd (checkContentDuplicate w k)) = slackNotifications w"
  "spreadsheetCalls (snd (checkContentDuplicate w k))
     = (if spreadsheetConfigured w then tl (spreadsheetCalls w) else spreadsheetCalls w)"
  by (simp_all add: checkContentDuplicate_def ws_env ws_misc ws_rows Let_def opens_rows
      split: option.splits)

lemma check_result:
  "fst (checkContentDuplicate w k) =
     (if spreadsheetConfigured w \<and> spreadsheetOpens w
      then (case find (\<lambda>row. rowContentKey row = k) (duplicateRows w) of
              None \<Rightarrow> (False, None) | Some row \<Rightarrow> (True, Some (driveFolderUrl row)))
      else (False, None))"
  by (simp add: checkContentDuplicate_def ws_result Let_def opens_rows split: option.splits)

lemma check_miss:
  "\<not> fst (fst (checkContentDuplicate w k)) \<Longrightarrow> spreadsheetConfigured w \<Longrightarrow> spreadsheetOpens w
     \<Longrightarrow> k \<notin> set (map rowContentKey (duplicateRows w))"
  by (auto simp: check_result find_None_iff split: option.splits)

lemma record_world:
  "environment (recordContentDuplicate w now k s d subj names url) = environment w"
  "processedRows (recordContentDuplicate w now k s d subj names url) = processedRows w"
  "driveFiles (recordContentDuplicate w now k s d subj names url) = driveFiles w"
  "slackNotifications (recordContentDuplicate w now k s d subj names url) = slackNotifications w"
  "spreadsheetCalls (recordContentDuplicate w now k s d subj names url)
     = (if spreadsheetConfigured w then tl (spreadsheetCalls w) else spreadsheetCalls w)"
  by (cases d; simp add: recordContentDuplicate_def ws_env ws_misc ws_rows Let_def opens_rows)+

lemma record_rows:
  "duplicateRows (recordContentDuplicate w now k s d subj names url) =
     (if spreadsheetConfigured w \<and> spreadsheetOpens w
      then (case d of
              None \<Rightarrow> duplicateRows w
            | Some sent \<Rightarrow> duplicateRows w @
                [\<lparr>registeredAt = now, rowContentKey = k, rowSender = s, sentAt = sent,
                  rowSubject = subj, pdfFilenames = join '', '' names, driveFolderUrl = url,
                  firstSavedAt = now\<rparr>])
      else duplicateRows w)"
  by (cases d; simp add: recordContentDuplicate_def ws_rows Let_def opens_rows)


lemma isProcessed_result:
  "fst (isMessageProcessedInSpreadsheet w mid) =
     (spreadsheetConfigured w \<and> spreadsheetOpens w
        \<and> mid \<in> set (map rowMessageId (processedRows w)))"
  by (cases "spreadsheetConfigured w \<and> spreadsheetOpens w")
     (auto simp: isMessageProcessedInSpreadsheet_def ws_result Let_def opens_rows)

lemma isProcessed_world:
  "environment (snd (isMessageProcessedInSpreadsheet w mid)) = environment w"
  "processedRows (snd (isMessageProcessedInSpreadsheet w mid)) = processedRows w"
  "duplicateRows (snd (isMessageProcessedInSpreadsheet w mid)) = duplicateRows w"
  "driveFiles (snd (isMessageProcessedInSpreadsheet w mid)) = driveFiles w"
  "slackNotifications (snd (isMessageProcessedInSpreadsheet w mid)) = slackNotifications w"
  "spreadsheetCalls (snd (isMessageProcessedInSpreadsheet w mid))
     = (if spreadsheetConfigured w then tl (spreadsheetCalls w) else spreadsheetCalls w)"
  by (simp_all add: isMessageProcessedInSpreadsheet_def ws_env ws_misc ws_rows Let_def opens_rows)

lemma mark_world:
  "environment (markMessageProcessedInSpreadsheet w now mid subj s ck st) = environment w"
  "duplicateRows (markMessageProcessedInSpreadsheet w now mid subj s ck st) = duplicateRows w"
  "driveFiles (markMessageProcessedInSpreadsheet w now mid subj s ck st) = driveFiles w"
  "slackNotifications (markMessageProcessedInSpreadsheet w now mid subj s ck st)
     = slackNotifications w"
  "spreadsheetCalls (markMessageProcessedInSpreadsheet w now mid subj s ck st)
     = (if spreadsheetConfigured w then tl (spreadsheetCalls w) else spreadsheetCalls w)"
  by (simp_all add: markMessageProcessedInSpreadsheet_def ws_env ws_misc ws_rows Let_def opens_rows)

lemma mark_rows:
  "processedRows (markMessageProcessedInSpreadsheet w now mid subj s ck st) =
     (if spreadsheetConfigured w \<and> spreadsheetOpens w
      then processedRows w @
        [\<lparr>processedAt = now, rowMessageId = mid,
          processedContentKey = (case ck of None \<Rightarrow> [] | Some k \<Rightarrow> k),
          processedSubject = subj, processedSender = s, status = st\<rparr>]
      else processedRows w)"
  by (simp add: markMessageProcessedInSpreadsheet_def ws_rows Let_def opens_rows)

lemma required_id:
  "getProperty (scriptProperties w) ''SPREADSHEET_ID'' True =
     (if spreadsheetConfigured w then Inr (configuredSpreadsheetId w)
      else Inl (RequiredPropertyMissing ''SPREADSHEET_ID''))"
  by (auto simp: getProperty_def spreadsheetConfigured_def configuredSpreadsheetId_def
      split: option.splits)

lemma addEmailRecord_eq:
  "addEmailRecord w = (if spreadsheetConfigured w then afterCall w else w)"
  by (auto simp: addEmailRecord_def required_id openById_eq configuredId_None split: option.splits)

lemma updateRecordStatus_eq:
  "updateRecordStatus w = (if spreadsheetConfigured w then afterCall w else w)"
  by (auto simp: updateRecordStatus_def required_id openById_eq configuredId_None
      split: option.splits)


subsection \<open>Attachments\<close>

lemma follows_refl [simp]: "followsFrom w w"
  by (simp add: followsFrom_def)

lemma follows_trans: "followsFrom w2 w1 \<Longrightarrow> followsFrom w1 w \<Longrightarrow> followsFrom w2 w"
  by (auto simp: followsFrom_def)

lemma followsI:
  assumes "environment w' = environment w"
    and "spreadsheetCalls w' = (if c then tl (spreadsheetCalls w) else spreadsheetCalls w)"
  shows "followsFrom w' w"
  using assms by (cases "spreadsheetCalls w") (auto simp: followsFrom_def)

lemma follows_env:
  assumes "followsFrom w' w"
  shows "environment w' = environment w"
    and "scriptProperties w' = scriptProperties w"
    and "spreadsheetConfigured w' = spreadsheetConfigured w"
    and "spreadsheetExists w' = spreadsheetExists w"
    and "driveReachable w' = driveReachable w"
    and "driveFolders w' = driveFolders w"
    and "slackReachable w' = slackReachable w"
    and "labelReachable w' = labelReachable w"
    and "processedLabel w' = processedLabel w"
    and "mailbox w' = mailbox w"
  using assms by (simp_all add: followsFrom_def environment_def spreadsheetConfigured_def)

lemma follows_reachable: "followsFrom w' w \<Longrightarrow> spreadsheetReachable w \<Longrightarrow> spreadsheetReachable w'"
  by (auto simp: followsFrom_def environment_def spreadsheetReachable_def list_all_iff)

lemma reachable_opens: "spreadsheetReachable w \<Longrightarrow> spreadsheetOpens w"
  by (cases "spreadsheetCalls w")
     (auto simp: spreadsheetReachable_def spreadsheetOpens_def next_answer)

lemma follows_afterCall [simp]: "followsFrom (afterCall w) w"
  by (rule followsI [where c = True]) simp_all

lemma check_follows: "followsFrom (snd (checkContentDuplicate w k)) w"
  by (rule followsI) (rule check_world)+

lemma record_follows: "followsFrom (recordContentDuplicate w now k s d subj names url) w"
  by (rule followsI) (rule record_world)+

lemma isProcessed_follows: "followsFrom (snd (isMessageProcessedInSpreadsheet w mid)) w"
  by (rule followsI) (rule isProcessed_world)+

lemma mark_follows: "followsFrom (markMessageProcessedInSpreadsheet w now mid subj s ck st) w"
  by (rule followsI) (rule mark_world)+

lemma addEmailRecord_view:
  "followsFrom (addEmailRecord w) w"
  "processedRows (addEmailRecord w) = processedRows w"
  "duplicateRows (addEmailRecord w) = duplicateRows w"
  "driveFiles (addEmailRecord w) = driveFiles w"
  "slackNotifications (addEmailRecord w) = slackNotifications w"
  by (simp_all add: addEmailRecord_eq)

lemma updateRecordStatus_view:
  "followsFrom (updateRecordStatus w) w"
  "processedRows (updateRecordStatus w) = processedRows w"
  "duplicateRows (updateRecordStatus w) = duplicateRows w"
  "driveFiles (updateRecordStatus w) = driveFiles w"
  "slackNotifications (updateRecordStatus w) = slackNotifications w"
  by (simp_all add: updateRecordStatus_eq)

lemma driveFiles_update_view:
  "environment (w\<lparr>driveFiles := x\<rparr>) = environment w"
  "processedRows (w\<lparr>driveFiles := x\<rparr>) = processedRows w"
  "duplicateRows (w\<lparr>driveFiles := x\<rparr>) = duplicateRows w"
  "spreadsheetConfigured (w\<lparr>driveFiles := x\<rparr>) = spreadsheetConfigured w"
  "followsFrom (w\<lparr>driveFiles := x\<rparr>) w"
proof -
  have cur: "currentSpreadsheet (w\<lparr>driveFiles := x\<rparr>) = currentSpreadsheet w"
    by (rule current_cong) simp_all
  show "environment (w\<lparr>driveFiles := x\<rparr>) = environment w"
    by (simp add: environment_def spreadsheetExists_def cur)
  then show "followsFrom (w\<lparr>driveFiles := x\<rparr>) w"
    by (simp add: followsFrom_def)
  show "processedRows (w\<lparr>driveFiles := x\<rparr>) = processedRows w"
    "duplicateRows (w\<lparr>driveFiles := x\<rparr>) = duplicateRows w"
    by (simp_all add: processedRows_def duplicateRows_def cur)
  show "spreadsheetConfigured (w\<lparr>driveFiles := x\<rparr>) = spreadsheetConfigured w"
    by (simp add: spreadsheetConfigured_def)
qed

lemma slack_update_view:
  "environment (w\<lparr>slackNotifications := x\<rparr>) = environment w"
  "processedRows (w\<lparr>slackNotifications := x\<rparr>) = processedRows w"
  "duplicateRows (w\<lparr>slackNotifications := x\<rparr>) = duplicateRows w"
  "spreadsheetConfigured (w\<lparr>slackNotifications := x\<rparr>) = spreadsheetConfigured w"
  "followsFrom (w\<lparr>slackNotifications := x\<rparr>) w"
proof -
  have cur: "currentSpreadsheet (w\<lparr>slackNotifications := x\<rparr>) = currentSpreadsheet w"
    by (rule current_cong) simp_all
  show "environment (w\<lparr>slackNotifications := x\<rparr>) = environment w"
    by (simp add: environment_def spreadsheetExists_def cur)
  then show "followsFrom (w\<lparr>slackNotifications := x\<rparr>) w"
    by (simp add: followsFrom_def)
  show "processedRows (w\<lparr>slackNotifications := x\<rparr>) = processedRows w"
    "duplicateRows (w\<lparr>slackNotifications := x\<rparr>) = duplicateRows w"
    by (simp_all add: processedRows_def duplicateRows_def cur)
  show "spreadsheetConfigured (w\<lparr>slackNotifications := x\<rparr>) = spreadsheetConfigured w"
    by (simp add: spreadsheetConfigured_def)
qed

lemma save_world:
  assumes "saveAttachmentToDrive w a fid d = Some (info, w')"
  shows "followsFrom w' w" "duplicateRows w' = duplicateRows w"
    "processedRows w' = processedRows w" "slackNotifications w' = slackNotifications w"
    "canBeSaved a" "d \<noteq> None" "w' = w\<lparr>driveFiles := driveFiles w @ [attachmentName a]\<rparr>"
  using assms
  by (auto simp: saveAttachmentToDrive_def driveFiles_update_view split: if_splits)

lemma step_world:
  assumes "processAttachment now subj d s fid names ck dup (infos, w) (i, a) = (infos', w')"
  shows "followsFrom w' w"
    and "processedRows w' = processedRows w"
    and "slackNotifications w' = slackNotifications w"
proof -
  have "followsFrom w' w \<and> processedRows w' = processedRows w
      \<and> slackNotifications w' = slackNotifications w"
  proof (cases "saveAttachmentToDrive w a fid d")
    case None
    with assms show ?thesis
      by (auto simp: processAttachment_def split: if_splits)
  next
    case (Some r)
    obtain info w1 where r: "r = (info, w1)" by (cases r)
    note sv = save_world [OF Some [unfolded r]]
    have rec: "followsFrom (recordContentDuplicate w1 now key s d subj names (folderUrl fid)) w"
      for key
      using follows_trans [OF record_follows sv(1)] .
    show ?thesis
      using assms Some r sv(1-4) rec
      by (auto simp: processAttachment_def record_world split: if_splits option.splits)
  qed
  then show "followsFrom w' w" and "processedRows w' = processedRows w"
    and "slackNotifications w' = slackNotifications w"
    by simp_all
qed

lemma step_duplicateRows_kept:
  assumes "processAttachment now subj d s fid names ck dup (infos, w) (i, a) = (infos', w')"
    and "i \<noteq> 0 \<or> \<not> canBeSaved a \<or> fst dup"
  shows "duplicateRows w' = duplicateRows w"
  using assms
  by (auto simp: processAttachment_def
      split: if_splits option.splits prod.splits dest: save_world)

lemma fold_world:
  "foldl (processAttachment now subj d s fid names ck dup) (infos, w) xs = (infos', w') \<Longrightarrow>
     followsFrom w' w \<and> processedRows w' = processedRows w
       \<and> slackNotifications w' = slackNotifications w"
proof (induction xs arbitrary: infos w)
  case Nil
  then show ?case by simp
next
  case (Cons x xs)
  obtain i a where x: "x = (i, a)" by (cases x)
  obtain infos1 w1 where st: "processAttachment now subj d s fid names ck dup (infos, w) (i, a) = (infos1, w1)"
    by (cases "processAttachment now subj d s fid names ck dup (infos, w) (i, a)")
  from Cons.prems x st
  have "foldl (processAttachment now subj d s fid names ck dup) (infos1, w1) xs = (infos', w')"
    by simp
  from Cons.IH [OF this] step_world [OF st] show ?case
    by (auto intro: follows_trans)
qed

lemma fold_duplicateRows_kept:
  "foldl (processAttachment now subj d s fid names ck dup) (infos, w) xs = (infos', w') \<Longrightarrow>
     (\<And>i a. (i, a) \<in> set xs \<Longrightarrow> i \<noteq> 0 \<or> \<not> canBeSaved a \<or> fst dup) \<Longrightarrow>
     duplicateRows w' = duplicateRows w"
proof (induction xs arbitrary: infos w)
  case Nil
  then show ?case by simp
next
  case (Cons x xs)
  obtain i a where x: "x = (i, a)" by (cases x)
  obtain infos1 w1 where st: "processAttachment now subj d s fid names ck dup (infos, w) (i, a) = (infos1, w1)"
    by (cases "processAttachment now subj d s fid names ck dup (infos, w) (i, a)")
  from Cons.prems(1) x st
  have rest: "foldl (processAttachment now subj d s fid names ck dup) (infos1, w1) xs = (infos', w')"
    by simp
  have "i \<noteq> 0 \<or> \<not> canBeSaved a \<or> fst dup" using Cons.prems(2) [of i a] x by simp
  from step_duplicateRows_kept [OF st this]
  have 1: "duplicateRows w1 = duplicateRows w" .
  have "duplicateRows w' = duplicateRows w1"
    using rest Cons.prems(2) by (intro Cons.IH) auto
  with 1 show ?case by simp
qed

lemma zip_upt_tail_indices:
  "(i, a) \<in> set (zip [Suc m..<n] xs) \<Longrightarrow> i \<noteq> 0"
  by (auto dest: set_zip_leftD)

lemma zip_upt_Cons:
  "zip [0..<length (a # as)] (a # as) = (0, a) # zip [Suc 0..<Suc (length as)] as"
  by (simp add: upt_conv_Cons del: upt_Suc)

lemma step_distinct:
  assumes st: "processAttachment now subj d s fid names ck dup (infos, w) (i, a) = (infos', w')"
    and dist: "distinct (map rowContentKey (duplicateRows w))"
    and fresh: "\<And>key. \<not> fst dup \<Longrightarrow> spreadsheetConfigured w \<Longrightarrow> ck = Some key \<Longrightarrow>
        key \<notin> set (map rowContentKey (duplicateRows w))"
  shows "distinct (map rowContentKey (duplicateRows w'))"
proof (cases "i = 0 \<and> canBeSaved a \<and> \<not> fst dup \<and> isPdf a \<and> d \<noteq> None \<and> ck \<noteq> None")
  case False
  then have "duplicateRows w' = duplicateRows w"
    using st
    by (auto simp: processAttachment_def saveAttachmentToDrive_def driveFiles_update_view
        split: if_splits option.splits prod.splits)
  with dist show ?thesis by simp
next
  case True
  then obtain key sent where ck: "ck = Some key" and d: "d = Some sent" by auto
  let ?w1 = "w\<lparr>driveFiles := driveFiles w @ [attachmentName a]\<rparr>"
  have w': "w' = (if key \<noteq> [] then recordContentDuplicate ?w1 now key s d subj names (folderUrl fid)
                  else ?w1)"
    using st True ck d by (auto simp: processAttachment_def saveAttachmentToDrive_def)
  have same: "duplicateRows ?w1 = duplicateRows w"
    by (rule driveFiles_update_view)
  have fr: "key \<notin> set (map rowContentKey (duplicateRows w))" if "spreadsheetConfigured w"
    using fresh [of key] True ck that by simp
  have "duplicateRows w' = duplicateRows w
      \<or> (spreadsheetConfigured w
          \<and> map rowContentKey (duplicateRows w') = map rowContentKey (duplicateRows w) @ [key])"
    using w' same d by (auto simp: record_rows driveFiles_update_view)
  then show ?thesis using dist fr by auto
qed

lemma getFolderById_follows:
  "followsFrom w' w \<Longrightarrow> getFolderById w' fid = getFolderById w fid"
  by (simp add: getFolderById_def follows_env)

lemma processAttachments_shape:
  assumes "atts \<noteq> []"
  obtains (missing) e where "processAttachments w now atts subj d s = (Inl e, w)"
  | (unreachable) w1 where "processAttachments w now atts subj d s = (Inl BaseFolderAccessFailed, w1)"
      "followsFrom w1 w" "duplicateRows w1 = duplicateRows w"
      "processedRows w1 = processedRows w" "slackNotifications w1 = slackNotifications w"
  | (loop) fid names ck dup w1 infos w' where
      "processAttachments w now atts subj d s = (Inr infos, w')"
      "foldl (processAttachment now subj d s fid names ck dup) ([], w1)
         (zip [0..<length atts] atts) = (infos, w')"
      "followsFrom w1 w" "duplicateRows w1 = duplicateRows w"
      "processedRows w1 = processedRows w" "slackNotifications w1 = slackNotifications w"
      "\<And>key. \<not> fst dup \<Longrightarrow> spreadsheetConfigured w \<Longrightarrow> spreadsheetOpens w \<Longrightarrow>
          ck = Some key \<Longrightarrow> key \<notin> set (map rowContentKey (duplicateRows w))"
      "driveReachable w"
proof (cases "getProperty (scriptProperties w) ''DRIVE_FOLDER_ID'' True")
  case (Inl e)
  with assms have "processAttachments w now atts subj d s = (Inl e, w)"
    by (simp add: processAttachments_def)
  then show ?thesis by (rule missing)
next
  case (Inr v)
  show ?thesis
  proof (cases v)
    case None
    with Inr assms
    have "processAttachments w now atts subj d s = (Inl (RequiredPropertyMissing ''DRIVE_FOLDER_ID''), w)"
      by (simp add: processAttachments_def)
    then show ?thesis by (rule missing)
  next
    case (Some fid)
    define names where "names = map attachmentName (filter isPdf atts)"
    define ck where "ck = (if names = [] then None
       else Some (generateContentDuplicateKey now s d subj names))"
    define checked where "checked = (case ck of None \<Rightarrow> ((False, None), w)
       | Some key \<Rightarrow> checkContentDuplicate w key)"
    define sorted where "sorted = (if d = None then names else sort names)"
    have w1: "followsFrom (snd checked) w"
      "duplicateRows (snd checked) = duplicateRows w"
      "processedRows (snd checked) = processedRows w"
      "slackNotifications (snd checked) = slackNotifications w"
      unfolding checked_def by (cases ck; simp add: check_world check_follows)+
    have fresh: "key \<notin> set (map rowContentKey (duplicateRows w))"
      if "\<not> fst (fst checked)" "spreadsheetConfigured w" "spreadsheetOpens w" "ck = Some key"
      for key
      using that check_miss [of w key] by (simp add: checked_def)
    have pa: "processAttachments w now atts subj d s =
       (if \<not> getFolderById (snd checked) fid then (Inl BaseFolderAccessFailed, snd checked)
        else (case foldl (processAttachment now subj d s fid sorted ck (fst checked))
                ([], snd checked) (zip [0..<length atts] atts)
              of (infos, w') \<Rightarrow> (Inr infos, w')))"
      using assms Inr Some
      by (simp add: processAttachments_def Let_def names_def ck_def checked_def sorted_def)
    show ?thesis
    proof (cases "getFolderById (snd checked) fid")
      case False
      with pa have "processAttachments w now atts subj d s = (Inl BaseFolderAccessFailed, snd checked)"
        by simp
      then show ?thesis using w1 by (intro unreachable)
    next
      case True
      obtain infos w' where f: "foldl (processAttachment now subj d s fid sorted ck (fst checked))
                ([], snd checked) (zip [0..<length atts] atts) = (infos, w')"
        by (cases "foldl (processAttachment now subj d s fid sorted ck (fst checked))
                ([], snd checked) (zip [0..<length atts] atts)")
      with pa True have "processAttachments w now atts subj d s = (Inr infos, w')"
        by simp
      moreover from True have "driveReachable w"
        using getFolderById_follows [OF w1(1), of fid] by (simp add: getFolderById_def)
      ultimately show ?thesis using f w1 fresh by (intro loop)
    qed
  qed
qed

lemma processAttachments_world:
  "followsFrom (snd (processAttachments w now atts subj d s)) w
   \<and> processedRows (snd (processAttachments w now atts subj d s)) = processedRows w
   \<and> slackNotifications (snd (processAttachments w now atts subj d s)) = slackNotifications w"
proof (cases "atts = []")
  case True
  then show ?thesis by (simp add: processAttachments_def)
next
  case False
  then show ?thesis
  proof (cases rule: processAttachments_shape [of atts w now subj d s])
    case (missing e)
    then show ?thesis by simp
  next
    case (unreachable w1)
    then show ?thesis by simp
  next
    case (loop fid names ck dup w1 infos w')
    from fold_world [OF loop(2)] loop show ?thesis by (auto intro: follows_trans)
  qed
qed

lemma zip_upt_first:
  assumes "(0, b) \<in> set (zip [0..<length (a # as)] (a # as))"
  shows "b = a"
proof -
  from assms have "(0, b) = (0, a) \<or> (0, b) \<in> set (zip [Suc 0..<Suc (length as)] as)"
    unfolding zip_upt_Cons by (simp del: upt_Suc)
  then show ?thesis
  proof
    assume "(0, b) = (0, a)"
    then show ?thesis by simp
  next
    assume "(0, b) \<in> set (zip [Suc 0..<Suc (length as)] as)"
    then have "(0::nat) \<noteq> 0" by (rule zip_upt_tail_indices)
    then show ?thesis by simp
  qed
qed

lemma processAttachments_duplicateRows_kept:
  assumes "\<not> driveReachable w \<or> atts = [] \<or> \<not> canBeSaved (hd atts)"
  shows "duplicateRows (snd (processAttachments w now atts subj d s)) = duplicateRows w"
proof (cases "atts = []")
  case True
  then show ?thesis by (simp add: processAttachments_def)
next
  case False
  then show ?thesis
  proof (cases rule: processAttachments_shape [of atts w now subj d s])
    case (missing e)
    then show ?thesis by simp
  next
    case (unreachable w1)
    then show ?thesis by simp
  next
    case (loop fid names ck dup w1 infos w')
    obtain a as where atts: "atts = a # as" using False by (cases atts) auto
    from assms loop(8) atts have a: "\<not> canBeSaved a" by simp
    have "i \<noteq> 0 \<or> \<not> canBeSaved b \<or> fst dup"
      if "(i, b) \<in> set (zip [0..<length atts] atts)" for i b
    proof (cases "i = 0")
      case True
      with that have "b = a" unfolding atts by (intro zip_upt_first) simp
      with a show ?thesis by simp
    next
      case False
      then show ?thesis by simp
    qed
    from fold_duplicateRows_kept [OF loop(2) this] loop show ?thesis by simp
  qed
qed

lemma fold_distinct:
  assumes "foldl (processAttachment now subj d s fid names ck dup) (infos, w) xs = (infos', w')"
    and "distinct (map rowContentKey (duplicateRows w))"
    and "\<And>i a. (i, a) \<in> set xs \<Longrightarrow> i \<noteq> 0"
  shows "distinct (map rowContentKey (duplicateRows w'))"
proof -
  have "duplicateRows w' = duplicateRows w"
  proof (rule fold_duplicateRows_kept [OF assms(1)])
    fix i a
    assume "(i, a) \<in> set xs"
    then have "i \<noteq> 0" by (rule assms(3))
    then show "i \<noteq> 0 \<or> \<not> canBeSaved a \<or> fst dup" by simp
  qed
  with assms(2) show ?thesis by simp
qed

lemma reachable_configured: "spreadsheetReachable w \<Longrightarrow> spreadsheetConfigured w"
  using configuredId_None [of w]
  by (auto simp: spreadsheetReachable_def spreadsheetExists_def currentSpreadsheet_def
      split: option.splits)

lemma processAttachments_distinct:
  assumes "distinct (map rowContentKey (duplicateRows w))"
    and "spreadsheetConfigured w \<longrightarrow> spreadsheetOpens w"
  shows "distinct (map rowContentKey (duplicateRows (snd (processAttachments w now atts subj d s))))"
proof (cases "atts = []")
  case True
  with assms show ?thesis by (simp add: processAttachments_def)
next
  case False
  then show ?thesis
  proof (cases rule: processAttachments_shape [of atts w now subj d s])
    case (missing e)
    with assms show ?thesis by simp
  next
    case (unreachable w1)
    with assms show ?thesis by simp
  next
    case (loop fid names ck dup w1 infos w')
    obtain a as where atts: "atts = a # as" using False by (cases atts) auto
    obtain infos1 w2 where st:
      "processAttachment now subj d s fid names ck dup ([], w1) (0, a) = (infos1, w2)"
      by (cases "processAttachment now subj d s fid names ck dup ([], w1) (0, a)")
    have "foldl (processAttachment now subj d s fid names ck dup) ([], w1)
        ((0, a) # zip [Suc 0..<Suc (length as)] as) = (infos, w')"
      using loop(2) unfolding atts zip_upt_Cons .
    then have rest: "foldl (processAttachment now subj d s fid names ck dup) (infos1, w2)
        (zip [Suc 0..<Suc (length as)] as) = (infos, w')"
      by (simp only: foldl_Cons st)
    have "distinct (map rowContentKey (duplicateRows w2))"
    proof (rule step_distinct [OF st])
      show "distinct (map rowContentKey (duplicateRows w1))"
        using assms loop(4) by simp
      show "key \<notin> set (map rowContentKey (duplicateRows w1))"
        if "\<not> fst dup" "spreadsheetConfigured w1" "ck = Some key"
        for key
        using loop(7) [of key] that loop(4) assms(2) follows_env(3) [OF loop(3)] by simp
    qed
    then have "distinct (map rowContentKey (duplicateRows w'))"
      by (rule fold_distinct [OF rest]) (rule zip_upt_tail_indices)
    with loop(1) show ?thesis by simp
  qed
qed

lemma slack_world:
  "followsFrom (sendSlackNotification w subj) w"
  "processedRows (sendSlackNotification w subj) = processedRows w"
  "duplicateRows (sendSlackNotification w subj) = duplicateRows w"
  "driveFiles (sendSlackNotification w subj) = driveFiles w"
  by (simp_all add: sendSlackNotification_def slack_update_view)

lemma slack_log:
  "slackNotifications (sendSlackNotification w subj)
     = (if slackReachable w then slackNotifications w @ [subj] else slackNotifications w)"
  by (simp add: sendSlackNotification_def)

lemma processMessage_fst:
  "fst (processMessage w now p m) = p (messageSubject m)"
  by (simp add: processMessage_def Let_def)

lemma processMessage_world:
  "followsFrom (snd (processMessage w now p m)) w
   \<and> processedRows (snd (processMessage w now p m)) = processedRows w"
proof (cases "p (messageSubject m)")
  case False
  then show ?thesis by (simp add: processMessage_def)
next
  case True
  let ?w0 = "addEmailRecord w"
  let ?w1 = "if attachments m = [] then ?w0
                else if filter isPdf (attachments m) = [] then ?w0
                else snd (processAttachments ?w0 now (attachments m) (messageSubject m)
                            (Some (messageDate m)) (messageFrom m))"
  let ?w2 = "sendSlackNotification ?w1 (messageSubject m)"
  have res: "snd (processMessage w now p m) = updateRecordStatus ?w2"
    using True by (simp add: processMessage_def Let_def)
  have 1: "followsFrom ?w1 ?w0 \<and> processedRows ?w1 = processedRows ?w0"
    using processAttachments_world [of ?w0 now "attachments m" "messageSubject m"
      "Some (messageDate m)" "messageFrom m"] by simp
  have "followsFrom (updateRecordStatus ?w2) w"
    using follows_trans [OF updateRecordStatus_view(1) follows_trans [OF slack_world(1)
      follows_trans [OF conjunct1 [OF 1] addEmailRecord_view(1)]]] .
  moreover have "processedRows (updateRecordStatus ?w2) = processedRows w"
    using 1 by (simp only: updateRecordStatus_view slack_world addEmailRecord_view)
  ultimately show ?thesis unfolding res by simp
qed

lemma processMessage_duplicateRows_kept:
  assumes "\<not> driveReachable w \<or> attachments m = [] \<or> \<not> canBeSaved (hd (attachments m))"
  shows "duplicateRows (snd (processMessage w now p m)) = duplicateRows w"
proof (cases "p (messageSubject m)")
  case False
  then show ?thesis by (simp add: processMessage_def)
next
  case True
  let ?w0 = "addEmailRecord w"
  have "driveReachable ?w0 = driveReachable w"
    using follows_env(5) [OF addEmailRecord_view(1)] .
  with assms have "\<not> driveReachable ?w0 \<or> attachments m = [] \<or> \<not> canBeSaved (hd (attachments m))"
    by simp
  from processAttachments_duplicateRows_kept [OF this, of now "messageSubject m"
      "Some (messageDate m)" "messageFrom m"]
  show ?thesis
    using True
    by (simp add: processMessage_def Let_def updateRecordStatus_view slack_world
        addEmailRecord_view)
qed

lemma processMessage_distinct:
  assumes "distinct (map rowContentKey (duplicateRows w))" and "spreadsheetReachable w"
  shows "distinct (map rowContentKey (duplicateRows (snd (processMessage w now p m))))"
proof (cases "p (messageSubject m)")
  case False
  with assms show ?thesis by (simp add: processMessage_def)
next
  case True
  let ?w0 = "addEmailRecord w"
  have d0: "distinct (map rowContentKey (duplicateRows ?w0))"
    using assms(1) by (simp add: addEmailRecord_view)
  have r0: "spreadsheetReachable ?w0"
    using follows_reachable [OF addEmailRecord_view(1) assms(2)] .
  have "spreadsheetConfigured ?w0 \<longrightarrow> spreadsheetOpens ?w0"
    using reachable_opens [OF r0] by simp
  from processAttachments_distinct [OF d0 this, of now "attachments m" "messageSubject m"
      "Some (messageDate m)" "messageFrom m"] d0
  show ?thesis
    using True
    by (simp add: processMessage_def Let_def updateRecordStatus_view slack_world)
qed

lemma processMessage_slack:
  assumes "p (messageSubject m)" and "slackReachable w"
  shows "slackNotifications (snd (processMessage w now p m)) = slackNotifications w @ [messageSubject m]"
proof -
  let ?w0 = "addEmailRecord w"
  let ?w1 = "if attachments m = [] then ?w0
                else if filter isPdf (attachments m) = [] then ?w0
                else snd (processAttachments ?w0 now (attachments m) (messageSubject m)
                            (Some (messageDate m)) (messageFrom m))"
  have 1: "followsFrom ?w1 ?w0 \<and> slackNotifications ?w1 = slackNotifications ?w0"
    using processAttachments_world [of ?w0 now "attachments m" "messageSubject m"
      "Some (messageDate m)" "messageFrom m"] by simp
  have "slackReachable ?w1"
    using assms(2) follows_env(7) [OF conjunct1 [OF 1]] follows_env(7) [OF addEmailRecord_view(1)]
    by simp
  moreover have "slackNotifications ?w1 = slackNotifications w"
    using 1 by (simp only: addEmailRecord_view)
  ultimately show ?thesis
    using assms(1)
    by (simp add: processMessage_def Let_def updateRecordStatus_view slack_log)
qed


subsection \<open>Messages and threads\<close>

lemma ptm_fst:
  "fst (processThreadMessage now p (w, b) m) = processOneMessage w now p m"
  by (simp add: processOneMessage_def processThreadMessage_def split: prod.splits bool.splits)

lemma processOneMessage_unfold:
  "processOneMessage w now p m =
     (if inTrash m then w
      else if fst (isMessageAlreadyProcessed w m) then snd (isMessageAlreadyProcessed w m)
      else if fst (processMessage (snd (isMessageAlreadyProcessed w m)) now p m)
      then markMessageAsProcessed (snd (processMessage (snd (isMessageAlreadyProcessed w m)) now p m)) now m
      else snd (processMessage (snd (isMessageAlreadyProcessed w m)) now p m))"
  by (simp add: processOneMessage_def processThreadMessage_def split: prod.splits bool.splits)

lemma ptm_snd:
  "snd (processThreadMessage now p (w, b) m) =
     (b \<or> (\<not> inTrash m \<and> \<not> fst (isMessageAlreadyProcessed w m) \<and> p (messageSubject m)))"
proof -
  obtain a w1 where 1: "isMessageAlreadyProcessed w m = (a, w1)"
    by (cases "isMessageAlreadyProcessed w m")
  obtain c w2 where 2: "processMessage w1 now p m = (c, w2)"
    by (cases "processMessage w1 now p m")
  have c: "c = p (messageSubject m)"
    using processMessage_fst [of w1 now p m] 2 by simp
  show ?thesis
    using 1 2 c by (cases a; cases c) (auto simp: processThreadMessage_def)
qed

lemma already_result:
  "fst (isMessageAlreadyProcessed w m) =
     (spreadsheetConfigured w \<and> spreadsheetOpens w
        \<and> messageId m \<in> set (map rowMessageId (processedRows w)))"
  by (simp add: isMessageAlreadyProcessed_def isProcessed_result)

lemma already_world:
  "followsFrom (snd (isMessageAlreadyProcessed w m)) w"
  "processedRows (snd (isMessageAlreadyProcessed w m)) = processedRows w"
  "duplicateRows (snd (isMessageAlreadyProcessed w m)) = duplicateRows w"
  "driveFiles (snd (isMessageAlreadyProcessed w m)) = driveFiles w"
  "slackNotifications (snd (isMessageAlreadyProcessed w m)) = slackNotifications w"
  by (simp_all add: isMessageAlreadyProcessed_def isProcessed_world isProcessed_follows)

lemma markAs_world:
  "followsFrom (markMessageAsProcessed w now m) w"
  "duplicateRows (markMessageAsProcessed w now m) = duplicateRows w"
  "driveFiles (markMessageAsProcessed w now m) = driveFiles w"
  "slackNotifications (markMessageAsProcessed w now m) = slackNotifications w"
  by (simp_all add: markMessageAsProcessed_def mark_world mark_follows)

lemma processOneMessage_follows:
  "followsFrom (processOneMessage w now p m) w"
proof -
  let ?w1 = "snd (isMessageAlreadyProcessed w m)"
  let ?w2 = "snd (processMessage ?w1 now p m)"
  have 1: "followsFrom ?w1 w" by (rule already_world)
  have 2: "followsFrom ?w2 w"
    using follows_trans [OF conjunct1 [OF processMessage_world] 1] .
  have 3: "followsFrom (markMessageAsProcessed ?w2 now m) w"
    using follows_trans [OF markAs_world(1) 2] .
  show ?thesis using 1 2 3 by (simp add: processOneMessage_unfold)
qed

lemma processOneMessage_distinct:
  assumes "distinct (map rowContentKey (duplicateRows w))" and "spreadsheetReachable w"
  shows "distinct (map rowContentKey (duplicateRows (processOneMessage w now p m)))"
proof -
  let ?w1 = "snd (isMessageAlreadyProcessed w m)"
  have 1: "distinct (map rowContentKey (duplicateRows ?w1))"
    using assms(1) by (simp add: already_world)
  have r1: "spreadsheetReachable ?w1"
    using follows_reachable [OF already_world(1) assms(2)] .
  from 1 r1 have 2: "distinct (map rowContentKey (duplicateRows (snd (processMessage ?w1 now p m))))"
    by (rule processMessage_distinct)
  then have 3: "distinct (map rowContentKey (duplicateRows
      (markMessageAsProcessed (snd (processMessage ?w1 now p m)) now m)))"
    by (simp add: markAs_world)
  show ?thesis
    using assms 1 2 3 by (simp add: processOneMessage_unfold)
qed

lemma fold_messages:
  assumes "foldl (processThreadMessage now p) (w, b) ms = (w', b')"
  shows "followsFrom w' w"
    and "distinct (map rowContentKey (duplicateRows w)) \<Longrightarrow> spreadsheetReachable w
      \<Longrightarrow> distinct (map rowContentKey (duplicateRows w'))"
proof -
  have "followsFrom w' w \<and> (distinct (map rowContentKey (duplicateRows w)) \<longrightarrow>
      spreadsheetReachable w \<longrightarrow> distinct (map rowContentKey (duplicateRows w')))"
    using assms
  proof (induction ms arbitrary: w b)
    case Nil
    then show ?case by simp
  next
    case (Cons m ms)
    let ?w1 = "processOneMessage w now p m"
    obtain b1 where st: "processThreadMessage now p (w, b) m = (?w1, b1)"
      using ptm_fst [of now p w b m] by (cases "processThreadMessage now p (w, b) m") simp
    from Cons.prems st have "foldl (processThreadMessage now p) (?w1, b1) ms = (w', b')"
      by simp
    from Cons.IH [OF this]
    have ih: "followsFrom w' ?w1" "distinct (map rowContentKey (duplicateRows ?w1)) \<Longrightarrow>
      spreadsheetReachable ?w1 \<Longrightarrow> distinct (map rowContentKey (duplicateRows w'))"
      by simp_all
    have f: "followsFrom ?w1 w" by (rule processOneMessage_follows)
    show ?case
      using ih f follows_trans [OF ih(1) f] processOneMessage_distinct [of w now p m]
        follows_reachable [OF f]
      by blast
  qed
  then show "followsFrom w' w"
    and "distinct (map rowContentKey (duplicateRows w)) \<Longrightarrow> spreadsheetReachable w
      \<Longrightarrow> distinct (map rowContentKey (duplicateRows w'))"
    by simp_all
qed

lemma label_view:
  "scriptProperties (addProcessedLabel w t) = scriptProperties w"
  "duplicateRows (addProcessedLabel w t) = duplicateRows w"
  "processedRows (addProcessedLabel w t) = processedRows w"
  "spreadsheetReachable (addProcessedLabel w t) = spreadsheetReachable w"
  "spreadsheetCalls (addProcessedLabel w t) = spreadsheetCalls w"
  "slackNotifications (addProcessedLabel w t) = slackNotifications w"
  "driveFiles (addProcessedLabel w t) = driveFiles w"
  "labelReachable (addProcessedLabel w t) = labelReachable w"
  "mailbox (addProcessedLabel w t) = mailbox w"
  "set (processedLabel (addProcessedLabel w t))
     = (if labelReachable w then insert (threadId t) (set (processedLabel w))
        else set (processedLabel w))"
proof -
  have cur: "currentSpreadsheet (addProcessedLabel w t) = currentSpreadsheet w"
    by (rule current_cong) (simp_all add: addProcessedLabel_def)
  show "duplicateRows (addProcessedLabel w t) = duplicateRows w"
    "processedRows (addProcessedLabel w t) = processedRows w"
    by (simp_all add: duplicateRows_def processedRows_def cur)
  show "spreadsheetReachable (addProcessedLabel w t) = spreadsheetReachable w"
    by (simp add: spreadsheetReachable_def spreadsheetExists_def cur) (simp add: addProcessedLabel_def)
qed (simp_all add: addProcessedLabel_def)

lemma processThread_distinct:
  assumes "distinct (map rowContentKey (duplicateRows w))" and "spreadsheetReachable w"
  shows "distinct (map rowContentKey (duplicateRows (processThread w now p t)))"
    and "spreadsheetReachable (processThread w now p t)"
proof -
  obtain w' b' where f: "foldl (processThreadMessage now p) (w, False) (threadMessages t) = (w', b')"
    by (cases "foldl (processThreadMessage now p) (w, False) (threadMessages t)")
  have d: "distinct (map rowContentKey (duplicateRows w'))"
    using fold_messages(2) [OF f] assms by simp
  have r: "spreadsheetReachable w'"
    using follows_reachable [OF fold_messages(1) [OF f] assms(2)] .
  show "distinct (map rowContentKey (duplicateRows (processThread w now p t)))"
    using d f by (simp add: processThread_def label_view)
  show "spreadsheetReachable (processThread w now p t)"
    using r f by (simp add: processThread_def label_view)
qed

lemma processThreads_distinct:
  "distinct (map rowContentKey (duplicateRows w)) \<Longrightarrow> spreadsheetReachable w \<Longrightarrow>
     distinct (map rowContentKey (duplicateRows (processThreads w now p ts)))"
  unfolding processThreads_def
  by (induction ts arbitrary: w) (simp_all add: processThread_distinct)

lemma find_append_hit:
  "find P xs = Some x \<Longrightarrow> find P (xs @ ys) = Some x"
  by (induction xs) auto

lemma first_record_wins:
  assumes "spreadsheetReachable w" and "fst (fst (checkContentDuplicate w k))"
  shows "fst (checkContentDuplicate (recordContentDuplicate w now k' s d subj names url) k)
       = fst (checkContentDuplicate w k)"
proof -
  have cr: "spreadsheetConfigured w" "spreadsheetOpens w"
    using assms(1) by (rule reachable_configured, rule reachable_opens)
  from assms(2) cr obtain row where row: "find (\<lambda>row. rowContentKey row = k) (duplicateRows w) = Some row"
    by (auto simp: check_result split: option.splits)
  let ?w = "recordContentDuplicate w now k' s d subj names url"
  have r': "spreadsheetReachable ?w"
    using follows_reachable [OF record_follows assms(1)] .
  have cr': "spreadsheetConfigured ?w" "spreadsheetOpens ?w"
    using r' by (rule reachable_configured, rule reachable_opens)
  have "find (\<lambda>row. rowContentKey row = k) (duplicateRows ?w) = Some row"
    using row cr by (cases d) (simp_all add: record_rows find_append_hit)
  with row cr cr' show ?thesis by (simp add: check_result)
qed

lemma record_then_found:
  assumes "spreadsheetReachable w"
  shows "fst (fst (checkContentDuplicate
           (recordContentDuplicate w now k s (Some sent) subj names url) k))"
proof -
  have cr: "spreadsheetConfigured w" "spreadsheetOpens w"
    using assms by (rule reachable_configured, rule reachable_opens)
  let ?w = "recordContentDuplicate w now k s (Some sent) subj names url"
  have r': "spreadsheetReachable ?w"
    using follows_reachable [OF record_follows assms] .
  have cr': "spreadsheetConfigured ?w" "spreadsheetOpens ?w"
    using r' by (rule reachable_configured, rule reachable_opens)
  have rows: "duplicateRows ?w = duplicateRows w @
      [\<lparr>registeredAt = now, rowContentKey = k, rowSender = s, sentAt = sent,
        rowSubject = subj, pdfFilenames = join '', '' names, driveFolderUrl = url,
        firstSavedAt = now\<rparr>]"
    using cr by (simp add: record_rows)
  have "\<exists>x\<in>set (duplicateRows ?w). rowContentKey x = k"
    unfolding rows by simp
  then have "find (\<lambda>row. rowContentKey row = k) (duplicateRows ?w) \<noteq> None"
    unfolding find_None_iff by blast
  then obtain found where "find (\<lambda>row. rowContentKey row = k) (duplicateRows ?w) = Some found"
    by blast
  with cr' show ?thesis by (simp add: check_result)
qed

lemma isProcessed_hit_world:
  assumes "fst (isMessageProcessedInSpreadsheet w mid)"
  shows "snd (isMessageProcessedInSpreadsheet w mid) = afterCall w"
proof -
  from assms have c: "spreadsheetConfigured w" and o: "spreadsheetOpens w"
    and hit: "mid \<in> set (map rowMessageId (processedRows w))"
    by (simp_all add: isProcessed_result)
  from c o obtain sid s where sid: "configuredSpreadsheetId w = Some sid"
    and s: "currentSpreadsheet w = Some s"
    by (rule opens_obtain)
  from hit s have "sheetProcessedRows s \<noteq> []"
    by (auto simp: rows_of_current)
  then have same: "createOrGetProcessedSheet s = s"
    by (auto simp: createOrGetProcessedSheet_def sheetProcessedRows_def split: option.splits)
  from s sid have "map_of (spreadsheets w) sid = Some s"
    by (simp add: currentSpreadsheet_def)
  then have "AList.update sid s (spreadsheets w) = spreadsheets w"
    by (rule update_triv)
  then have "putSpreadsheet (afterCall w) sid s = afterCall w"
    by (simp add: putSpreadsheet_def)
  then show ?thesis
    using c o sid s same by (simp add: isMessageProcessedInSpreadsheet_def ws_world Let_def)
qed

lemma put_processed_property:
  fixes w mid v
  defines "w' \<equiv> w\<lparr>scriptProperties := putProperty (PROCESSED_MSG @ mid) v (scriptProperties w)\<rparr>"
  shows "spreadsheetConfigured w' = spreadsheetConfigured w"
    and "spreadsheetOpens w' = spreadsheetOpens w"
    and "processedRows w' = processedRows w"
proof -
  have ne: "PROCESSED_MSG @ mid \<noteq> ''SPREADSHEET_ID''" by (simp add: PROCESSED_MSG_def)
  then have m: "map_of (scriptProperties w') ''SPREADSHEET_ID''
      = map_of (scriptProperties w) ''SPREADSHEET_ID''"
    by (simp add: w'_def putProperty_def update_conv')
  show c: "spreadsheetConfigured w' = spreadsheetConfigured w"
    by (simp add: spreadsheetConfigured_def getProperty_def m)
  have i: "configuredSpreadsheetId w' = configuredSpreadsheetId w"
    by (simp add: configuredSpreadsheetId_def c m)
  have sp: "spreadsheets w' = spreadsheets w" by (simp add: w'_def)
  have cur: "currentSpreadsheet w' = currentSpreadsheet w"
    by (simp add: currentSpreadsheet_def i sp split: option.splits)
  show "processedRows w' = processedRows w"
    by (simp add: processedRows_def cur)
  have "fst (nextSpreadsheetCall w') = fst (nextSpreadsheetCall w)"
    by (simp add: next_answer w'_def)
  then show "spreadsheetOpens w' = spreadsheetOpens w"
    by (simp add: spreadsheetOpens_def spreadsheetExists_def cur)
qed

lemma flag_kept:
  "foldl (processThreadMessage now p) (w, True) ms = (w', b') \<Longrightarrow> b'"
proof (induction ms arbitrary: w)
  case Nil
  then show ?case by simp
next
  case (Cons m ms)
  obtain w1 b1 where st: "processThreadMessage now p (w, True) m = (w1, b1)"
    by (cases "processThreadMessage now p (w, True) m")
  have "b1" using ptm_snd [of now p w True m] st by simp
  with Cons st show ?case by simp
qed

lemma processThread_labels:
  assumes t: "threadMessages t = before @ msg # rest"
    and b: "foldl (processThreadMessage now p) (w0, False) before = (w, new)"
    and m: "\<not> inTrash msg" "p (messageSubject msg)" "\<not> fst (isMessageAlreadyProcessed w msg)"
    and l: "labelReachable w0"
  shows "threadId t \<in> set (processedLabel (processThread w0 now p t))"
proof -
  obtain w1 b1 where st: "processThreadMessage now p (w, new) msg = (w1, b1)"
    by (cases "processThreadMessage now p (w, new) msg")
  have b1: "b1" using ptm_snd [of now p w new msg] st m by simp
  obtain w' b' where r: "foldl (processThreadMessage now p) (w1, True) rest = (w', b')"
    by (cases "foldl (processThreadMessage now p) (w1, True) rest")
  have b': "b'" using r by (rule flag_kept)
  have all: "foldl (processThreadMessage now p) (w0, False) (threadMessages t) = (w', True)"
    using b st b1 r b' by (simp add: t)
  have "followsFrom w' w0" using all by (rule fold_messages(1))
  then have "labelReachable w'" using l by (simp add: follows_env)
  then show ?thesis
    using all by (simp add: processThread_def label_view)
qed

lemma labelled_not_found:
  "threadId t \<in> set (processedLabel w) \<Longrightarrow> t \<notin> set (searchThreads w)"
  by (auto simp: searchThreads_def dest: in_set_takeD)

lemma processThread_labels_kept:
  "set (processedLabel w) \<subseteq> set (processedLabel (processThread w now p t))"
proof -
  obtain w' b' where f: "foldl (processThreadMessage now p) (w, False) (threadMessages t) = (w', b')"
    by (cases "foldl (processThreadMessage now p) (w, False) (threadMessages t)")
  have "processedLabel w' = processedLabel w"
    using fold_messages(1) [OF f] by (simp add: follows_env)
  then show ?thesis
    using f by (auto simp: processThread_def label_view)
qed

lemma processThreads_labels_kept:
  "set (processedLabel w) \<subseteq> set (processedLabel (processThreads w now p ts))"
  unfolding processThreads_def
proof (induction ts arbitrary: w)
  case Nil
  then show ?case by simp
next
  case (Cons t ts)
  show ?case
    using Cons.IH [of "processThread w now p t"] processThread_labels_kept [of w now p t]
    by auto
qed


subsection \<open>Validation\<close>

lemma drive_folder_view:
  "spreadsheetCalls (snd (getOrCreateDriveFolder w now)) = spreadsheetCalls w"
  "spreadsheets (snd (getOrCreateDriveFolder w now)) = spreadsheets w"
  "driveReachable (snd (getOrCreateDriveFolder w now)) = driveReachable w"
  "slackNotifications (snd (getOrCreateDriveFolder w now)) = slackNotifications w"
  "driveFiles (snd (getOrCreateDriveFolder w now)) = driveFiles w"
  "processedLabel (snd (getOrCreateDriveFolder w now)) = processedLabel w"
  "mailbox (snd (getOrCreateDriveFolder w now)) = mailbox w"
  by (simp_all add: getOrCreateDriveFolder_def Let_def split: option.splits prod.splits)

lemma openById_view:
  "slackNotifications (snd (openById w sid)) = slackNotifications w"
  "driveFiles (snd (openById w sid)) = driveFiles w"
  "processedLabel (snd (openById w sid)) = processedLabel w"
  "mailbox (snd (openById w sid)) = mailbox w"
  "driveReachable (snd (openById w sid)) = driveReachable w"
  "spreadsheets (snd (openById w sid)) = spreadsheets w"
  "spreadsheetCalls (snd (openById w sid)) = tl (spreadsheetCalls w)"
  by (simp_all add: openById_eq)

lemma spreadsheet_view:
  "slackNotifications (snd (createOrGetSpreadsheet w now)) = slackNotifications w"
  "driveFiles (snd (createOrGetSpreadsheet w now)) = driveFiles w"
  "processedLabel (snd (createOrGetSpreadsheet w now)) = processedLabel w"
  "mailbox (snd (createOrGetSpreadsheet w now)) = mailbox w"
  by (auto simp: createOrGetSpreadsheet_def Let_def openById_eq nextSpreadsheetCall_def
      split: option.splits prod.splits list.splits bool.splits)

lemma spreadsheet_down:
  assumes "spreadsheetCalls w = False # False # calls"
  shows "\<exists>e. fst (createOrGetSpreadsheet w now) = Inl e"
  using assms
  by (auto simp: createOrGetSpreadsheet_def Let_def openById_eq next_answer afterCall_eq
      nextSpreadsheetCall_def
      split: option.splits prod.splits list.splits bool.splits)

lemma validate_view:
  "slackNotifications (snd (validateConfiguration w now)) = slackNotifications w"
  "driveFiles (snd (validateConfiguration w now)) = driveFiles w"
  "processedLabel (snd (validateConfiguration w now)) = processedLabel w"
  "mailbox (snd (validateConfiguration w now)) = mailbox w"
proof -
  obtain r w1 where d: "getOrCreateDriveFolder w now = (r, w1)"
    by (cases "getOrCreateDriveFolder w now")
  obtain r2 w2 where s: "createOrGetSpreadsheet w1 now = (r2, w2)"
    by (cases "createOrGetSpreadsheet w1 now")
  have 1: "slackNotifications w1 = slackNotifications w" "driveFiles w1 = driveFiles w"
    "processedLabel w1 = processedLabel w" "mailbox w1 = mailbox w"
    using drive_folder_view [of w now] d by simp_all
  have 2: "slackNotifications w2 = slackNotifications w1" "driveFiles w2 = driveFiles w1"
    "processedLabel w2 = processedLabel w1" "mailbox w2 = mailbox w1"
    using spreadsheet_view [of w1 now] s by simp_all
  show "slackNotifications (snd (validateConfiguration w now)) = slackNotifications w"
    "driveFiles (snd (validateConfiguration w now)) = driveFiles w"
    "processedLabel (snd (validateConfiguration w now)) = processedLabel w"
    "mailbox (snd (validateConfiguration w now)) = mailbox w"
    using d s 1 2
    by (auto simp: validateConfiguration_def split: sum.splits option.splits)
qed

lemma validate_down:
  assumes "spreadsheetCalls w = False # False # calls"
  shows "fst (validateConfiguration w now) \<noteq> None"
proof -
  obtain r w1 where d: "getOrCreateDriveFolder w now = (r, w1)"
    by (cases "getOrCreateDriveFolder w now")
  have "spreadsheetCalls w1 = False # False # calls"
    using drive_folder_view(1) [of w now] d assms by simp
  then obtain e where "fst (createOrGetSpreadsheet w1 now) = Inl e"
    using spreadsheet_down by blast
  then show ?thesis
    using d
    by (auto simp: validateConfiguration_def split: sum.splits option.splits prod.splits)
qed

lemma processEmails_down:
  assumes "spreadsheetCalls w = False # False # calls"
  shows "fst (processEmails w now p) \<noteq> None"
    and "slackNotifications (snd (processEmails w now p)) = slackNotifications w"
    and "driveFiles (snd (processEmails w now p)) = driveFiles w"
    and "processedLabel (snd (processEmails w now p)) = processedLabel w"
proof -
  obtain e w1 where v: "validateConfiguration w now = (Some e, w1)"
    using validate_down [OF assms, of now] by (cases "validateConfiguration w now") auto
  then have pe: "processEmails w now p = (Some e, w1)"
    by (simp add: processEmails_def)
  show "fst (processEmails w now p) \<noteq> None" using pe by simp
  show "slackNotifications (snd (processEmails w now p)) = slackNotifications w"
    "driveFiles (snd (processEmails w now p)) = driveFiles w"
    "processedLabel (snd (processEmails w now p)) = processedLabel w"
    using pe v validate_view [of w now] by simp_all
qed

lemma processEmails_labels_kept:
  "set (processedLabel w) \<subseteq> set (processedLabel (snd (processEmails w now p)))"
proof (cases "validateConfiguration w now")
  case (Pair r w1)
  have l: "processedLabel w1 = processedLabel w"
    using validate_view(3) [of w now] Pair by simp
  show ?thesis
    using Pair l processThreads_labels_kept [of w1 now p "searchThreads w1"]
    by (cases r) (simp_all add: processEmails_def)
qed


subsection \<open>The claims on the ledgers and the coordinator\<close>

lemma key_nonempty: "generateContentDuplicateKey now s d subj names \<noteq> []"
  by (cases d) (simp_all add: generateContentDuplicateKey_def formatDate_def)

text \<open>
  Claim C1, as the code has it. \<^verbatim>\<open>recordContentDuplicate\<close> appends a row on
  every call, so the Content Ledger can hold several rows with one key. The
  lookup returns the first row with the key: while every call of the
  spreadsheet succeeds, no append (with this key or another) changes what
  \<^verbatim>\<open>checkContentDuplicate\<close> returns for a key that it finds, and after an
  append the key is found. \<^verbatim>\<open>processAttachments\<close> appends after its lookup has
  answered ``not a duplicate''; when the call of the lookup succeeds (or no
  spreadsheet is configured) this keeps the keys of the ledger distinct, and
  an invocation in which every call of the spreadsheet succeeds keeps them
  distinct over all threads.
\<close>

theorem content_ledger_first_record_wins:
  "(spreadsheetReachable w \<and> fst (fst (checkContentDuplicate w k)) \<longrightarrow>
      fst (checkContentDuplicate (recordContentDuplicate w now k' s d subj names url) k)
        = fst (checkContentDuplicate w k))
   \<and> (spreadsheetReachable w \<longrightarrow>
      fst (fst (checkContentDuplicate
        (recordContentDuplicate w now k s (Some sent) subj names url) k)))
   \<and> (distinct (map rowContentKey (duplicateRows w))
        \<and> (spreadsheetConfigured w \<longrightarrow> spreadsheetOpens w) \<longrightarrow>
      distinct (map rowContentKey
        (duplicateRows (snd (processAttachments w now atts subj d s)))))
   \<and> (distinct (map rowContentKey (duplicateRows w)) \<and> spreadsheetReachable w \<longrightarrow>
      distinct (map rowContentKey (duplicateRows (processThreads w now p threads))))"
  by (intro conjI impI)
    (simp_all add: first_record_wins record_then_found processAttachments_distinct
       processThreads_distinct)

text \<open>
  Claim C2, as the code has it. For a message that is not in the trash, whose
  subject matches and whose id is not in the Processing Ledger of a
  configured spreadsheet that answers every call, processing appends exactly
  one row for its id, whether its content is new or a duplicate and whether
  saving the attachments succeeded or failed; the status of that row is
  \<^verbatim>\<open>Success\<close> in each of these cases and its content key is empty. When Drive
  is not reachable, or saving the first attachment fails, or there is no
  attachment, no row is appended to the Content Ledger.
\<close>

theorem processed_row_appended_once:
  assumes "\<not> inTrash msg"
    and "p (messageSubject msg)"
    and "spreadsheetConfigured w"
    and "spreadsheetReachable w"
    and "messageId msg \<notin> set (map rowMessageId (processedRows w))"
  shows "processedRows (processOneMessage w now p msg) = processedRows w @ [processedRowFor now msg]
    \<and> (\<not> driveReachable w \<or> attachments msg = [] \<or> \<not> canBeSaved (hd (attachments msg)) \<longrightarrow>
          duplicateRows (processOneMessage w now p msg) = duplicateRows w)"
proof -
  let ?w1 = "snd (isMessageAlreadyProcessed w msg)"
  let ?w2 = "snd (processMessage ?w1 now p msg)"
  have miss: "\<not> fst (isMessageAlreadyProcessed w msg)"
    using assms(5) by (simp add: already_result)
  have ok: "fst (processMessage ?w1 now p msg)"
    using assms(2) by (simp add: processMessage_fst)
  have res: "processOneMessage w now p msg = markMessageAsProcessed ?w2 now msg"
    using assms(1) miss ok by (simp add: processOneMessage_unfold)
  have f1: "followsFrom ?w1 w" by (rule already_world)
  have f2: "followsFrom ?w2 w"
    using follows_trans [OF conjunct1 [OF processMessage_world] f1] .
  have r2: "spreadsheetReachable ?w2" using follows_reachable [OF f2 assms(4)] .
  have c2: "spreadsheetConfigured ?w2" and o2: "spreadsheetOpens ?w2"
    using r2 by (rule reachable_configured, rule reachable_opens)
  have rows2: "processedRows ?w2 = processedRows w"
    using conjunct2 [OF processMessage_world [of ?w1 now p msg]] already_world(2) [of w msg]
    by simp
  have 1: "processedRows (processOneMessage w now p msg) = processedRows w @ [processedRowFor now msg]"
    unfolding res markMessageAsProcessed_def
    using c2 o2 rows2 by (simp add: mark_rows processedRowFor_def)
  have 2: "duplicateRows (processOneMessage w now p msg) = duplicateRows w"
    if "\<not> driveReachable w \<or> attachments msg = [] \<or> \<not> canBeSaved (hd (attachments msg))"
  proof -
    have "driveReachable ?w1 = driveReachable w" using f1 by (rule follows_env)
    with that have "\<not> driveReachable ?w1 \<or> attachments msg = [] \<or> \<not> canBeSaved (hd (attachments msg))"
      by simp
    then have "duplicateRows ?w2 = duplicateRows ?w1" by (rule processMessage_duplicateRows_kept)
    then show ?thesis
      unfolding res by (simp add: markAs_world already_world)
  qed
  from 1 2 show ?thesis by blast
qed

text \<open>
  Claim C3, as the code has it. The message-level check reads the Processing
  Ledger only: a message counts as already handled exactly when the
  spreadsheet is configured, the call that opens it succeeds and a row holds
  the id. A \<^verbatim>\<open>PROCESSED_MSG_\<close> property for the message makes no difference to
  the answer, neither the check nor the processing of a message writes a
  script property (no cache warm-up), and a message that is already handled
  leaves the world as it is but for the call of \<^verbatim>\<open>openById\<close> that the check
  has made.
\<close>

theorem message_check_reads_ledger_only:
  "fst (isMessageAlreadyProcessed w msg)
     = (spreadsheetConfigured w \<and> spreadsheetOpens w
          \<and> messageId msg \<in> set (map rowMessageId (processedRows w)))
   \<and> fst (isMessageAlreadyProcessed
        (w\<lparr>scriptProperties := putProperty (PROCESSED_MSG @ messageId msg) v (scriptProperties w)\<rparr>)
        msg)
     = fst (isMessageAlreadyProcessed w msg)
   \<and> scriptProperties (snd (isMessageAlreadyProcessed w msg)) = scriptProperties w
   \<and> scriptProperties (processOneMessage w now p msg) = scriptProperties w
   \<and> (fst (isMessageAlreadyProcessed w msg) \<longrightarrow>
        processOneMessage w now p msg
          = (if inTrash msg then w else w\<lparr>spreadsheetCalls := tl (spreadsheetCalls w)\<rparr>))"
proof (intro conjI impI)
  show "fst (isMessageAlreadyProcessed w msg)
     = (spreadsheetConfigured w \<and> spreadsheetOpens w
          \<and> messageId msg \<in> set (map rowMessageId (processedRows w)))"
    by (rule already_result)
  show "fst (isMessageAlreadyProcessed
        (w\<lparr>scriptProperties := putProperty (PROCESSED_MSG @ messageId msg) v (scriptProperties w)\<rparr>)
        msg)
     = fst (isMessageAlreadyProcessed w msg)"
    by (simp only: already_result put_processed_property)
  show "scriptProperties (snd (isMessageAlreadyProcessed w msg)) = scriptProperties w"
    using already_world(1) [of w msg] by (rule follows_env)
  show "scriptProperties (processOneMessage w now p msg) = scriptProperties w"
    using processOneMessage_follows [of w now p msg] by (rule follows_env)
  show "processOneMessage w now p msg
          = (if inTrash msg then w else w\<lparr>spreadsheetCalls := tl (spreadsheetCalls w)\<rparr>)"
    if "fst (isMessageAlreadyProcessed w msg)"
    using that isProcessed_hit_world [of w "messageId msg"]
    by (simp add: processOneMessage_unfold isMessageAlreadyProcessed_def afterCall_eq)
qed



subsection \<open>Examples\<close>

lemmas world_eval =
  baseWorld_def loanMessage_def loanThread_def unsavableMessage_def cachedWorld_def
  handledWorld_def resentMessage_def outageWorld_def downWorld_def emptySpreadsheet_def
  processedRowFor_def everySubject_def
  spreadsheetConfigured_def configuredSpreadsheetId_def getProperty_def
  nextSpreadsheetCall_def openById_def putSpreadsheet_def withSpreadsheet_def
  currentSpreadsheet_def sheetProcessedRows_def sheetDuplicateRows_def
  processedRows_def duplicateRows_def
  createOrGetProcessedSheet_def createOrGetContentDuplicateSheet_def
  checkContentDuplicate_def recordContentDuplicate_def
  isMessageProcessedInSpreadsheet_def markMessageProcessedInSpreadsheet_def
  isMessageAlreadyProcessed_def markMessageAsProcessed_def
  addEmailRecord_def updateRecordStatus_def
  isPdf_def getFolderById_def saveAttachmentToDrive_def processAttachment_def
  processAttachments_def sendSlackNotification_def processMessage_def
  processThreadMessage_def processOneMessage_def
  addProcessedLabel_def searchThreads_def processThread_def processThreads_def
  spreadsheetExists_def spreadsheetOpens_def spreadsheetReachable_def
  Let_def endsWith_def toLowerCase_def lowerChar_def isUpper_def key_nonempty

lemma two_appends_two_rows:
  "map rowContentKey
     (duplicateRows
        (recordContentDuplicate
           (recordContentDuplicate baseWorld 100 ''CONTENT_k1'' ''a@x.com'' (Some 50) ''Loan''
              [''loan.pdf''] ''url-1'')
           200 ''CONTENT_k1'' ''a@x.com'' (Some 50) ''Loan'' [''loan.pdf''] ''url-2''))
     = [''CONTENT_k1'', ''CONTENT_k1'']"
  by (simp add: world_eval)

lemma first_delivery_world:
  "processOneMessage baseWorld 1719019900000 everySubject loanMessage
     = baseWorld\<lparr>spreadsheets := [(''sheet-1'',
          \<lparr>spreadsheetName = SPREADSHEET_NAME,
           processedSheet = Some [processedRowFor 1719019900000 loanMessage],
           duplicateSheet = Some
             [\<lparr>registeredAt = 1719019900000,
               rowContentKey = generateContentDuplicateKey 1719019900000 ''a@x.com''
                 (Some 1719019800000) ''Loan Agreement signed by A'' [''loan.pdf''],
               rowSender = ''a@x.com'', sentAt = 1719019800000,
               rowSubject = ''Loan Agreement signed by A'', pdfFilenames = ''loan.pdf'',
               driveFolderUrl = folderUrl ''folder-1'', firstSavedAt = 1719019900000\<rparr>]\<rparr>)],
        driveFiles := [''loan.pdf''],
        slackNotifications := [''Loan Agreement signed by A'']\<rparr>"
  by (simp add: world_eval)

lemma senders_base:
  "getConfiguredSenderEmails
     [(''SENDER_EMAIL_1'', ''a@x.com''),
      (''SLACK_WEBHOOK_URL'', ''https://hooks.slack.com/services/T''),
      (''SPREADSHEET_ID'', ''sheet-1''), (''DRIVE_FOLDER_ID'', ''folder-1'')] = [''a@x.com'']"
  by code_simp

lemmas run_eval = validateConfiguration_def getOrCreateDriveFolder_def createOrGetSpreadsheet_def
  processEmails_def startsWith_def senders_base

lemma validate_outage:
  "validateConfiguration outageWorld 1719019900000 = (None, downWorld)"
  by (simp add: run_eval world_eval)

lemma search_down: "searchThreads downWorld = [loanThread]"
  by (simp add: world_eval)

lemma run_down:
  "processThreads downWorld 1719019900000 everySubject [loanThread]
     = baseWorld\<lparr>driveFiles := [''loan.pdf''],
         slackNotifications := [''Loan Agreement signed by A''],
         processedLabel := [''t1'']\<rparr>"
  by (simp add: world_eval)

lemma afterOutage_eq:
  "afterOutage = baseWorld\<lparr>driveFiles := [''loan.pdf''],
         slackNotifications := [''Loan Agreement signed by A''],
         processedLabel := [''t1'']\<rparr>"
  "fst (processEmails outageWorld 1719019900000 everySubject) = None"
  by (simp_all add: afterOutage_def processEmails_def validate_outage search_down run_down)

lemma second_run:
  "processEmails afterOutage 1719020200000 everySubject = (None, afterOutage)"
  unfolding afterOutage_eq by (simp add: run_eval world_eval)

lemma repeat_eval:
  "map rowContentKey (duplicateRows
     (processOneMessage repeatWorld 1719019900000 everySubject resentMessage))
     = [generateContentDuplicateKey 1719019900000 ''a@x.com''
          (Some 1719019800000) ''Loan Agreement signed by A'' [''loan.pdf''],
        generateContentDuplicateKey 1719019900000 ''a@x.com''
          (Some 1719019800000) ''Loan Agreement signed by A'' [''loan.pdf'']]
   \<and> driveFiles (processOneMessage repeatWorld 1719019900000 everySubject resentMessage)
       = [''loan.pdf'', ''loan.pdf'']"
  unfolding repeatWorld_def first_delivery_world by (simp add: world_eval)

text \<open>
  The claim as the spec words it (at most one record for a content key in
  every state) fails: two calls of \<^verbatim>\<open>recordContentDuplicate\<close> with one key
  leave two rows with that key; and so does the coordinator, when the mail
  arrives a second time and the call of the lookup fails while the call of
  the append succeeds.
\<close>

theorem content_ledger_two_rows_counterexample:
  "map rowContentKey
     (duplicateRows
        (recordContentDuplicate
           (recordContentDuplicate baseWorld 100 ''CONTENT_k1'' ''a@x.com'' (Some 50) ''Loan''
              [''loan.pdf''] ''url-1'')
           200 ''CONTENT_k1'' ''a@x.com'' (Some 50) ''Loan'' [''loan.pdf''] ''url-2''))
     = [''CONTENT_k1'', ''CONTENT_k1'']
   \<and> map rowContentKey (duplicateRows
        (processOneMessage repeatWorld 1719019900000 everySubject resentMessage))
     = [generateContentDuplicateKey 1719019900000 ''a@x.com''
          (Some 1719019800000) ''Loan Agreement signed by A'' [''loan.pdf''],
        generateContentDuplicateKey 1719019900000 ''a@x.com''
          (Some 1719019800000) ''Loan Agreement signed by A'' [''loan.pdf'']]"
  using two_appends_two_rows repeat_eval by (intro conjI) simp_all

theorem content_ledger_first_record_wins_witness:
  "fst (checkContentDuplicate
     (recordContentDuplicate
        (recordContentDuplicate baseWorld 100 ''CONTENT_k1'' ''a@x.com'' (Some 50) ''Loan''
           [''loan.pdf''] ''url-1'')
        200 ''CONTENT_k1'' ''a@x.com'' (Some 50) ''Loan'' [''loan.pdf''] ''url-2'')
     ''CONTENT_k1'') = (True, Some ''url-1'')
   \<and> distinct (map rowContentKey
        (duplicateRows (snd (processAttachments baseWorld 1719019900000 (attachments loanMessage)
           ''Loan'' (Some 50) ''a@x.com''))))
   \<and> distinct (map rowContentKey
        (duplicateRows (processThreads baseWorld 1719019900000 everySubject [loanThread])))"
proof -
  let ?w1 = "recordContentDuplicate baseWorld 100 ''CONTENT_k1'' ''a@x.com'' (Some 50) ''Loan''
           [''loan.pdf''] ''url-1''"
  have r1: "spreadsheetReachable ?w1"
    by (simp add: world_eval)
  have l1: "fst (checkContentDuplicate ?w1 ''CONTENT_k1'') = (True, Some ''url-1'')"
    by (simp add: world_eval)
  have d: "distinct (map rowContentKey (duplicateRows baseWorld))"
    and r: "spreadsheetReachable baseWorld"
    and o: "spreadsheetConfigured baseWorld \<longrightarrow> spreadsheetOpens baseWorld"
    by (simp_all add: world_eval)
  note th1 = content_ledger_first_record_wins [where w = ?w1 and k = "''CONTENT_k1''"
      and now = 200 and k' = "''CONTENT_k1''" and s = "''a@x.com''" and d = "Some 50"
      and subj = "''Loan''" and names = "[''loan.pdf'']" and url = "''url-2''" and sent = 50
      and p = everySubject and threads = "[]" and atts = "[]"]
  note th2 = content_ledger_first_record_wins [where w = baseWorld and k = "''CONTENT_k1''"
      and now = 1719019900000 and k' = "''CONTENT_k1''" and s = "''a@x.com''" and d = "Some 50"
      and subj = "''Loan''" and names = "[''loan.pdf'']" and url = "''url-2''" and sent = 50
      and p = everySubject and threads = "[loanThread]" and atts = "attachments loanMessage"]
  from th1 r1 l1 have a: "fst (checkContentDuplicate
     (recordContentDuplicate ?w1 200 ''CONTENT_k1'' ''a@x.com'' (Some 50) ''Loan'' [''loan.pdf'']
        ''url-2'') ''CONTENT_k1'') = (True, Some ''url-1'')"
    by simp
  from th2 d o have b: "distinct (map rowContentKey
        (duplicateRows (snd (processAttachments baseWorld 1719019900000 (attachments loanMessage)
           ''Loan'' (Some 50) ''a@x.com''))))"
    by blast
  from th2 d r have c: "distinct (map rowContentKey
        (duplicateRows (processThreads baseWorld 1719019900000 everySubject [loanThread])))"
    by blast
  show ?thesis using a b c by (intro conjI)
qed

text \<open>
  The claim as the spec words it (a failed persistence is recorded with the
  status \<^verbatim>\<open>Error\<close>) fails: for a mail whose only PDF cannot be saved, nothing
  is saved and the row appended to the Processing Ledger has the status
  \<^verbatim>\<open>Success\<close>.
\<close>

theorem processed_row_success_counterexample:
  "map status (processedRows
      (processOneMessage baseWorld 1719019900000 everySubject unsavableMessage)) = [''Success'']
   \<and> driveFiles (processOneMessage baseWorld 1719019900000 everySubject unsavableMessage) = []"
  by (simp add: world_eval)

theorem processed_row_appended_once_witness:
  "processedRows (processOneMessage baseWorld 1719019900000 everySubject unsavableMessage)
     = [processedRowFor 1719019900000 unsavableMessage]
   \<and> duplicateRows (processOneMessage baseWorld 1719019900000 everySubject unsavableMessage) = []"
proof -
  have h: "\<not> inTrash unsavableMessage" "spreadsheetConfigured baseWorld"
    "spreadsheetReachable baseWorld"
    "messageId unsavableMessage \<notin> set (map rowMessageId (processedRows baseWorld))"
    "\<not> canBeSaved (hd (attachments unsavableMessage))"
    "processedRows baseWorld = []" "duplicateRows baseWorld = []"
    by (simp_all add: world_eval)
  show ?thesis
    using processed_row_appended_once [of unsavableMessage everySubject baseWorld 1719019900000] h
    by (simp add: everySubject_def)
qed

text \<open>
  The claim as the spec words it fails twice: a message whose id is in the
  script properties but not in the ledger is not treated as handled (it is
  processed and notified), and a message found in the ledger is not inserted
  into the script properties.
\<close>

theorem fast_store_not_consulted_counterexample:
  "map_of (scriptProperties cachedWorld) ''PROCESSED_MSG_m1'' = Some ''1000''
   \<and> \<not> fst (isMessageAlreadyProcessed cachedWorld loanMessage)
   \<and> slackNotifications (processOneMessage cachedWorld 1719019900000 everySubject loanMessage)
       = [''Loan Agreement signed by A'']
   \<and> fst (isMessageAlreadyProcessed handledWorld loanMessage)
   \<and> map_of (scriptProperties
        (processOneMessage handledWorld 1719019900000 everySubject loanMessage))
        ''PROCESSED_MSG_m1'' = None"
  by (simp add: world_eval)

theorem message_check_reads_ledger_only_witness:
  "fst (isMessageAlreadyProcessed handledWorld loanMessage)
   \<and> processOneMessage handledWorld 1719019900000 everySubject loanMessage = handledWorld"
proof -
  have h: "spreadsheetConfigured handledWorld" "spreadsheetOpens handledWorld"
    "messageId loanMessage \<in> set (map rowMessageId (processedRows handledWorld))"
    "\<not> inTrash loanMessage"
    "handledWorld\<lparr>spreadsheetCalls := tl (spreadsheetCalls handledWorld)\<rparr> = handledWorld"
    by (simp_all add: world_eval)
  show ?thesis
    using message_check_reads_ledger_only [of handledWorld loanMessage "''1000''" 1719019900000
        everySubject] h
    by simp
qed



end
